theory Spec2Isabelle
  imports Complex_Main "HOL-Library.Sublist"
begin

section \<open>The environment of the producer: clock and sleep\<close>

text \<open>
  \<^verbatim>\<open>time.time()\<close> and \<^verbatim>\<open>time.sleep(d)\<close> are the only effects of the rate limiter.
  The clock is an oracle \<open>clk\<close>: the \<open>n\<close>-th call of \<^verbatim>\<open>time.time()\<close> of a run returns
  \<open>clk n\<close>. Nothing is assumed about the readings, so every theorem below holds for
  every way in which time may pass. Readings are Python floats; they are modelled as
  real numbers. The code only compares them and subtracts them from \<open>1.0\<close>, and the sign
  of such a difference is the same in both arithmetics.
  The \<open>world\<close> counts the clock readings made so far and logs every sleep performed.
\<close>

record world =
  time_reads :: nat
  sleeps :: "real list"

definition time_time :: "(nat \<Rightarrow> real) \<Rightarrow> world \<Rightarrow> real \<times> world" where
  "time_time clk w = (clk (time_reads w), w\<lparr>time_reads := Suc (time_reads w)\<rparr>)"

definition time_sleep :: "real \<Rightarrow> world \<Rightarrow> world" where
  "time_sleep d w = w\<lparr>sleeps := sleeps w @ [d]\<rparr>"

section \<open>RateLimiter (data_generator.py)\<close>

record rate_limiter =
  events_per_second :: int
  interval :: real
  last_event_time :: real
  events_this_second :: int
  second_start :: real

text \<open>
  \<^verbatim>\<open>RateLimiter.__init__\<close>: every integer rate is accepted; the conditional only
  protects the division. The two fields \<open>last_event_time\<close> and \<open>second_start\<close> come
  from two successive clock readings.
\<close>

definition RateLimiter_init :: "(nat \<Rightarrow> real) \<Rightarrow> int \<Rightarrow> world \<Rightarrow> rate_limiter \<times> world" where
  "RateLimiter_init clk eps w =
     (let (t1, w1) = time_time clk w;
          (t2, w2) = time_time clk w1
      in (\<lparr>events_per_second = eps,
           interval = (if eps > 0 then 1.0 / real_of_int eps else 1.0),
           last_event_time = t1,
           events_this_second = 0,
           second_start = t2\<rparr>, w2))"

text \<open>\<^verbatim>\<open>RateLimiter.wait\<close>, statement by statement.\<close>

definition wait :: "(nat \<Rightarrow> real) \<Rightarrow> rate_limiter \<times> world \<Rightarrow> rate_limiter \<times> world" where
  "wait clk sw =
     (let (self, w) = sw;
          (current_time, w1) = time_time clk w;
          self1 = (if current_time - second_start self \<ge> 1.0
                   then self\<lparr>events_this_second := 0, second_start := current_time\<rparr>
                   else self)
      in if events_this_second self1 \<ge> events_per_second self1
         then
           (let sleep_time = 1.0 - (current_time - second_start self1);
                w2 = (if sleep_time > 0 then time_sleep sleep_time w1 else w1);
                (t, w3) = time_time clk w2;
                self2 = self1\<lparr>events_this_second := 0, second_start := t\<rparr>
            in (self2\<lparr>events_this_second := events_this_second self2 + 1\<rparr>, w3))
         else (self1\<lparr>events_this_second := events_this_second self1 + 1\<rparr>, w1))"

text \<open>\<open>n\<close> successive calls of \<^verbatim>\<open>wait()\<close> on the same limiter.\<close>

fun waits :: "(nat \<Rightarrow> real) \<Rightarrow> nat \<Rightarrow> rate_limiter \<times> world \<Rightarrow> rate_limiter \<times> world" where
  "waits clk 0 sw = sw"
| "waits clk (Suc n) sw = waits clk n (wait clk sw)"

definition world0 :: world where
  "world0 = \<lparr>time_reads = 0, sleeps = []\<rparr>"

text \<open>The window test and the limit test of one call, as the code evaluates them.\<close>

definition window_elapsed :: "(nat \<Rightarrow> real) \<Rightarrow> rate_limiter \<times> world \<Rightarrow> bool" where
  "window_elapsed clk sw = (clk (time_reads (snd sw)) - second_start (fst sw) \<ge> 1.0)"

definition limit_reached :: "(nat \<Rightarrow> real) \<Rightarrow> rate_limiter \<times> world \<Rightarrow> bool" where
  "limit_reached clk sw =
     ((if window_elapsed clk sw then 0 else events_this_second (fst sw))
        \<ge> events_per_second (fst sw))"

text \<open>A sample clock for concrete runs: a reading every tenth of a second.\<close>

definition clock_tenths :: "nat \<Rightarrow> real" where
  "clock_tenths i = real i / 10"

section \<open>Event generation (data_generator.py)\<close>

text \<open>
  The configuration tables. A Python dict keeps its insertion order, which the iteration
  in \<^verbatim>\<open>select_event_type\<close> and \<^verbatim>\<open>list(CATEGORIES.keys())\<close> follow: association lists.
  Probabilities and prices are Python floats, modelled as the real numbers their
  literals denote.
\<close>

definition EVENT_TYPES :: "(string \<times> real) list" where
  "EVENT_TYPES = [(''view'', 0.6), (''add_to_cart'', 0.3), (''purchase'', 0.1)]"

definition CATEGORIES :: "(string \<times> (string \<times> real \<times> real) list) list" where
  "CATEGORIES =
     [(''Electronics'',
       [(''Wireless Headphones'', 79.99, 149.99),
        (''Smartphone Case'', 15.99, 45.99),
        (''USB-C Cable'', 9.99, 24.99),
        (''Portable Charger'', 29.99, 79.99),
        (''Bluetooth Speaker'', 39.99, 199.99),
        (''Laptop Stand'', 25.99, 89.99),
        (''Webcam HD'', 49.99, 129.99),
        (''Wireless Mouse'', 19.99, 79.99)]),
      (''Clothing'',
       [(''Cotton T-Shirt'', 14.99, 34.99),
        (''Denim Jeans'', 39.99, 89.99),
        (''Running Shoes'', 59.99, 149.99),
        (''Winter Jacket'', 79.99, 199.99),
        (''Baseball Cap'', 12.99, 29.99),
        (''Wool Sweater'', 45.99, 99.99)]),
      (''Home & Garden'',
       [(''LED Desk Lamp'', 24.99, 59.99),
        (''Plant Pot Set'', 19.99, 49.99),
        (''Throw Blanket'', 29.99, 79.99),
        (''Wall Clock'', 15.99, 45.99),
        (''Coffee Maker'', 49.99, 149.99)]),
      (''Books'',
       [(''Programming Python'', 29.99, 49.99),
        (''Data Science Handbook'', 34.99, 54.99),
        (''Mystery Novel'', 9.99, 19.99),
        (''Self-Help Guide'', 14.99, 24.99),
        (''Cooking Recipe Book'', 19.99, 39.99)]),
      (''Sports'',
       [(''Yoga Mat'', 19.99, 49.99),
        (''Dumbbell Set'', 39.99, 129.99),
        (''Basketball'', 19.99, 39.99),
        (''Tennis Racket'', 49.99, 149.99),
        (''Fitness Tracker'', 49.99, 199.99)])]"

text \<open>
  Everything random or read from the outside in one call of \<^verbatim>\<open>generate_event\<close>: the
  two integers behind the two \<^verbatim>\<open>random.choice\<close> calls, the \<^verbatim>\<open>random.random()\<close> inside
  \<^verbatim>\<open>random.uniform\<close>, the one of \<^verbatim>\<open>select_event_type\<close>, three UUID strings and the
  formatted current time.
\<close>

record draws =
  category_draw :: nat
  product_draw :: nat
  price_draw :: real
  type_draw :: real
  event_uuid :: string
  user_uuid :: string
  product_uuid :: string
  now_str :: string

datatype py_error = IndexError | KeyError | OSError

text \<open>
  \<^verbatim>\<open>random.choice(seq)\<close> raises IndexError on an empty sequence and otherwise returns
  \<^verbatim>\<open>seq[randbelow(len(seq))]\<close>; the draw \<open>k\<close> stands for the random integer.
\<close>

definition choice :: "'a list \<Rightarrow> nat \<Rightarrow> py_error + 'a" where
  "choice seq k = (if seq = [] then Inl IndexError else Inr (seq ! (k mod length seq)))"

text \<open>\<^verbatim>\<open>random.uniform(a, b)\<close> is \<^verbatim>\<open>a + (b - a) * random()\<close>.\<close>

definition uniform :: "real \<Rightarrow> real \<Rightarrow> real \<Rightarrow> real" where
  "uniform a b u = a + (b - a) * u"

text \<open>\<^verbatim>\<open>round(x, 2)\<close>: to the nearest multiple of \<open>0.01\<close>, a tie to the even one.\<close>

definition py_round2 :: "real \<Rightarrow> real" where
  "py_round2 x =
     (let y = x * 100; f = \<lfloor>y\<rfloor>; d = y - of_int f
      in of_int (if d < 1 / 2 then f else if 1 / 2 < d then f + 1
                 else if even f then f else f + 1) / 100)"

definition generate_user_id :: "string \<Rightarrow> string" where
  "generate_user_id u = ''user_'' @ take 8 u"

definition generate_product_id :: "string \<Rightarrow> string" where
  "generate_product_id u = ''prod_'' @ take 8 u"

fun select_loop :: "real \<Rightarrow> real \<Rightarrow> (string \<times> real) list \<Rightarrow> string" where
  "select_loop rand cumulative [] = ''view''"
| "select_loop rand cumulative ((event_type, probability) # rest) =
     (let cumulative = cumulative + probability
      in if rand \<le> cumulative then event_type else select_loop rand cumulative rest)"

definition select_event_type :: "real \<Rightarrow> string" where
  "select_event_type rand = select_loop rand 0 EVENT_TYPES"

definition select_product :: "draws \<Rightarrow> py_error + (string \<times> string \<times> real)" where
  "select_product d =
     (case choice (map fst CATEGORIES) (category_draw d) of
        Inl e \<Rightarrow> Inl e
      | Inr category \<Rightarrow>
          (case map_of CATEGORIES category of
             None \<Rightarrow> Inl KeyError
           | Some products \<Rightarrow>
               (case choice products (product_draw d) of
                  Inl e \<Rightarrow> Inl e
                | Inr (product_name, min_price, max_price) \<Rightarrow>
                    Inr (category, product_name,
                         py_round2 (uniform min_price max_price (price_draw d))))))"

text \<open>An event is a dict with eight keys; its values are strings, but for the price.\<close>

datatype pyval = S string | F real

type_synonym event = "(string \<times> pyval) list"

definition generate_event :: "draws \<Rightarrow> py_error + event" where
  "generate_event d =
     (case select_product d of
        Inl e \<Rightarrow> Inl e
      | Inr (category, product_name, price) \<Rightarrow>
          Inr [(''event_id'', S (event_uuid d)),
               (''user_id'', S (generate_user_id (user_uuid d))),
               (''product_id'', S (generate_product_id (product_uuid d))),
               (''product_name'', S product_name),
               (''category'', S category),
               (''price'', F price),
               (''event_type'', S (select_event_type (type_draw d))),
               (''timestamp'', S (now_str d))])"

text \<open>Sample draws for concrete runs.\<close>

definition sample_draws :: "nat \<Rightarrow> draws" where
  "sample_draws i =
     \<lparr>category_draw = 4 + i, product_draw = 7 * i, price_draw = 1 / 3, type_draw = 0.95,
      event_uuid = ''0f8fad5b-d9cb-469f-a165-70867728950e'',
      user_uuid = ''7c9e6679-7425-40de-944b-e07fc1f90ae7'',
      product_uuid = ''3f2504e04f8911d39a0c0305e82c3301'',
      now_str = ''2024-01-15 10:30:00''\<rparr>"

section \<open>The producer loop (data_generator.py)\<close>

text \<open>
  What the loop of \<^verbatim>\<open>run_generator\<close> reads from the outside is an oracle of the
  environment: the clock, the random draws of the \<open>n\<close>-th generated event, the time stamp
  that names the file of the \<open>n\<close>-th call of \<^verbatim>\<open>write_events_to_csv\<close>, what the file system
  does with that call, and the shutdown signal. A call either completes, or \<^verbatim>\<open>open\<close> raises
  and no file appears, or the error comes after \<^verbatim>\<open>open\<close> has created the file, which then
  holds only the rows that had reached it (possibly none). The global flag \<^verbatim>\<open>shutdown_requested\<close> starts false, is set by the signal handler and is never
  reset: all the loop can tell is which of its reads of the flag is the first to see it
  set (\<open>signal_at\<close>, counting the reads from \<open>0\<close>; \<open>None\<close> when no signal comes).
\<close>

datatype disk_result = Completed | Open_failed | Write_failed nat

record producer_env =
  clock_reading :: "nat \<Rightarrow> real"
  signal_at :: "nat option"
  draw_at :: "nat \<Rightarrow> draws"
  file_stamp :: "nat \<Rightarrow> string"
  disk_at :: "nat \<Rightarrow> disk_result"

text \<open>
  A file of the output directory, as one call of \<^verbatim>\<open>write_events_to_csv\<close> leaves it: its
  name, the header, the event rows, and whether the call returned (\<open>complete\<close>) or raised.
\<close>

record csv_file =
  file_name :: string
  fieldnames :: "string list"
  body :: "event list"
  complete :: bool

text \<open>
  The state of a run: the rate limiter, the clock readings and sleeps so far, the number
  of reads of the flag, of generated events and of calls of \<^verbatim>\<open>write_events_to_csv\<close>, the
  files these calls left, in the order of the calls (two calls with the same time stamp
  open the same path, and the later one replaces the file), and the two counters. The
  output directory is taken as resolved.
\<close>

record producer =
  limiter :: rate_limiter
  wld :: world
  flag_reads :: nat
  generated :: nat
  write_calls :: nat
  files :: "csv_file list"
  total_events :: int
  total_files :: int

definition shutdown_requested :: "producer_env \<Rightarrow> producer \<Rightarrow> bool \<times> producer" where
  "shutdown_requested env p =
     ((case signal_at env of None \<Rightarrow> False | Some k \<Rightarrow> k \<le> flag_reads p),
      p\<lparr>flag_reads := Suc (flag_reads p)\<rparr>)"

text \<open>
  \<^verbatim>\<open>write_events_to_csv\<close> opens \<^verbatim>\<open>events_<stamp>.csv\<close> for writing and writes the header and
  one row per event; an error of the file system is raised to the caller.
\<close>

definition write_events_to_csv ::
    "producer_env \<Rightarrow> event list \<Rightarrow> producer \<Rightarrow> py_error option \<times> producer" where
  "write_events_to_csv env events p =
     (let n = write_calls p;
          p1 = p\<lparr>write_calls := Suc n\<rparr>;
          f = \<lparr>file_name = ''events_'' @ file_stamp env n @ ''.csv'',
               fieldnames = [''event_id'', ''user_id'', ''product_id'', ''product_name'',
                             ''category'', ''price'', ''event_type'', ''timestamp''],
               body = events, complete = True\<rparr>
      in case disk_at env n of
           Completed \<Rightarrow> (None, p1\<lparr>files := files p1 @ [f]\<rparr>)
         | Open_failed \<Rightarrow> (Some OSError, p1)
         | Write_failed m \<Rightarrow>
             (Some OSError, p1\<lparr>files := files p1 @ [f\<lparr>body := take m events, complete := False\<rparr>]\<rparr>))"

text \<open>
  One more event of the batch, once the flag was read and found clear: the call of
  \<^verbatim>\<open>rate_limiter.wait()\<close> and of \<^verbatim>\<open>generate_event()\<close>.
\<close>

definition next_event_state :: "producer_env \<Rightarrow> producer \<Rightarrow> producer" where
  "next_event_state env p =
     (let (rl, w) = wait (clock_reading env) (limiter p, wld p)
      in p\<lparr>limiter := rl, wld := w, generated := Suc (generated p)\<rparr>)"

text \<open>The loop \<^verbatim>\<open>for _ in range(batch_size)\<close>, with its \<^verbatim>\<open>break\<close>.\<close>

fun fill_batch ::
    "producer_env \<Rightarrow> nat \<Rightarrow> producer \<Rightarrow> event list \<Rightarrow> py_error option \<times> producer \<times> event list" where
  "fill_batch env 0 p events = (None, p, events)"
| "fill_batch env (Suc n) p events =
     (let (flag, p1) = shutdown_requested env p
      in if flag then (None, p1, events)
         else (case generate_event (draw_at env (generated p1)) of
                 Inl e \<Rightarrow> (Some e, next_event_state env p1, events)
               | Inr ev \<Rightarrow> fill_batch env n (next_event_state env p1) (events @ [ev])))"

text \<open>The duration check at the head of the \<^verbatim>\<open>while\<close> body.\<close>

definition duration_reached ::
    "producer_env \<Rightarrow> int option \<Rightarrow> real \<Rightarrow> producer \<Rightarrow> bool \<times> producer" where
  "duration_reached env duration start_time p =
     (case duration of
        None \<Rightarrow> (False, p)
      | Some d \<Rightarrow>
          (let (now, w) = time_time (clock_reading env) (wld p)
           in (now - start_time \<ge> real_of_int d, p\<lparr>wld := w\<rparr>)))"

text \<open>
  The rest of the \<^verbatim>\<open>while\<close> body: fill a batch, and write it if it has events. The
  clock is read for \<^verbatim>\<open>batch_start\<close> and, after a write, for the progress line.
\<close>

definition one_batch ::
    "producer_env \<Rightarrow> int \<Rightarrow> producer \<Rightarrow> py_error option \<times> producer" where
  "one_batch env batch_size p =
     (let (batch_start, w) = time_time (clock_reading env) (wld p)
      in case fill_batch env (nat batch_size) (p\<lparr>wld := w\<rparr>) [] of
           (Some e, p2, events) \<Rightarrow> (Some e, p2)
         | (None, p2, events) \<Rightarrow>
             if events \<noteq> []
             then (case write_events_to_csv env events p2 of
                     (Some e, p3) \<Rightarrow> (Some e, p3)
                   | (None, p3) \<Rightarrow>
                       (let p4 = p3\<lparr>total_events := total_events p3 + int (length events),
                                      total_files := total_files p3 + 1\<rparr>;
                            (now, w') = time_time (clock_reading env) (wld p4)
                        in (None, p4\<lparr>wld := w'\<rparr>)))
             else (None, p2))"

text \<open>
  The \<^verbatim>\<open>while not shutdown_requested\<close> loop may run for ever: \<open>fuel\<close> bounds the number
  of its iterations, and \<open>Running\<close> is the answer when they do not suffice.
\<close>

datatype run_state = Running | Stopped | Crashed py_error

fun run_loop ::
    "producer_env \<Rightarrow> int \<Rightarrow> int option \<Rightarrow> real \<Rightarrow> nat \<Rightarrow> producer \<Rightarrow> run_state \<times> producer" where
  "run_loop env batch_size duration start_time 0 p = (Running, p)"
| "run_loop env batch_size duration start_time (Suc fuel) p =
     (let (flag, p1) = shutdown_requested env p
      in if flag then (Stopped, p1)
         else (let (expired, p2) = duration_reached env duration start_time p1
               in if expired then (Stopped, p2)
                  else (case one_batch env batch_size p2 of
                          (Some e, p3) \<Rightarrow> (Crashed e, p3)
                        | (None, p3) \<Rightarrow> run_loop env batch_size duration start_time fuel p3)))"

text \<open>\<^verbatim>\<open>run_generator\<close>: the set-up, the loop, and the clock reading of the summary.\<close>

definition run_generator ::
    "producer_env \<Rightarrow> int \<Rightarrow> int \<Rightarrow> int option \<Rightarrow> nat \<Rightarrow> run_state \<times> producer" where
  "run_generator env rate batch_size duration fuel =
     (let (rl, w) = RateLimiter_init (clock_reading env) rate world0;
          (start_time, w1) = time_time (clock_reading env) w;
          p0 = \<lparr>limiter = rl, wld = w1, flag_reads = 0, generated = 0, write_calls = 0,
                files = [], total_events = 0, total_files = 0\<rparr>;
          (st, p) = run_loop env batch_size duration start_time fuel p0;
          (stop_time, w2) = time_time (clock_reading env) (wld p)
      in (st, p\<lparr>wld := w2\<rparr>))"

text \<open>A sample environment: the signal is first seen by the read numbered \<open>k\<close>.\<close>

definition sample_env :: "nat \<Rightarrow> producer_env" where
  "sample_env k =
     \<lparr>clock_reading = clock_tenths, signal_at = Some k, draw_at = sample_draws,
      file_stamp = (\<lambda>n. ''20240101_000000_00000'' @ [char_of (48 + n mod 10)]),
      disk_at = (\<lambda>n. Completed)\<rparr>"

text \<open>The same, on a disk that fills up while the second file is written.\<close>

definition sample_env_disk_full :: "producer_env" where
  "sample_env_disk_full = (sample_env 100)\<lparr>disk_at := (\<lambda>n. if n = 1 then Write_failed 0 else Completed)\<rparr>"

text \<open>The state in which \<^verbatim>\<open>run_generator\<close> enters its loop, at rate \<open>5\<close> on the sample clock.\<close>

definition sample_producer :: producer where
  "sample_producer =
     (let (rl, w) = RateLimiter_init clock_tenths 5 world0;
          (start_time, w1) = time_time clock_tenths w
      in \<lparr>limiter = rl, wld = w1, flag_reads = 0, generated = 0, write_calls = 0,
          files = [], total_events = 0, total_files = 0\<rparr>)"

text \<open>
  What the counters should say about the files: the files of the calls that returned
  have event rows and are the ones counted, with their rows; and there are no more
  calls of \<^verbatim>\<open>write_events_to_csv\<close> than generated events, and no more files than calls.
\<close>

definition counters_match_files :: "producer \<Rightarrow> bool" where
  "counters_match_files p \<longleftrightarrow>
     (\<forall>f \<in> set (files p). complete f \<longrightarrow> body f \<noteq> [])
     \<and> total_files p = int (length (filter complete (files p)))
     \<and> total_events p = int (sum_list (map (\<lambda>f. length (body f)) (filter complete (files p))))
     \<and> length (files p) \<le> write_calls p
     \<and> write_calls p \<le> generated p"

section \<open>DataFrames (the part of the engine's API that the streaming job uses)\<close>

text \<open>
  A cell of a DataFrame is SQL-nullable. The event schema of \<^verbatim>\<open>get_event_schema()\<close> has
  string columns and one double column (\<open>price\<close>, modelled as a real number: the job only
  compares it with \<open>0\<close>); the job adds a timestamp column and a boolean column.
\<close>

type_synonym timestamp = "nat \<times> nat \<times> nat \<times> nat \<times> nat \<times> nat"

datatype cell = Null | Str string | Dbl real | Ts timestamp | Bool bool

text \<open>
  A frame has a schema (its column names, in order) and rows; the list of rows is in
  the order in which the engine iterates over them.
\<close>

record dataframe =
  columns :: "string list"
  rows :: "cell list list"

text \<open>The value of a named column in a row; a \<^verbatim>\<open>Column\<close> expression is evaluated on it.\<close>

fun lookup :: "string list \<Rightarrow> cell list \<Rightarrow> string \<Rightarrow> cell" where
  "lookup (c # cs) (v # vs) n = (if c = n then v else lookup cs vs n)"
| "lookup _ _ n = Null"

type_synonym column = "(string \<Rightarrow> cell) \<Rightarrow> cell"

definition col :: "string \<Rightarrow> column" where
  "col n = (\<lambda>r. r n)"

text \<open>
  \<^verbatim>\<open>trim\<close> removes the space characters at both ends, \<^verbatim>\<open>lower\<close> maps the letters
  \<open>A\<close> to \<open>Z\<close> to lower case (characters here are bytes: only ASCII letters have a case).
  Both return null on null. On a cell that is not a string the engine would cast; no
  such cell occurs in a column of the event schema, and the model returns null there.
\<close>

definition trim_spaces :: "string \<Rightarrow> string" where
  "trim_spaces s =
     rev (dropWhile (\<lambda>c. c = CHR '' '') (rev (dropWhile (\<lambda>c. c = CHR '' '') s)))"

definition lower_char :: "char \<Rightarrow> char" where
  "lower_char c =
     (case map_of (zip ''ABCDEFGHIJKLMNOPQRSTUVWXYZ'' ''abcdefghijklmnopqrstuvwxyz'') c of
        Some d \<Rightarrow> d
      | None \<Rightarrow> c)"

definition lower_str :: "string \<Rightarrow> string" where
  "lower_str s = map lower_char s"

definition trim :: "column \<Rightarrow> column" where
  "trim e = (\<lambda>r. case e r of Str s \<Rightarrow> Str (trim_spaces s) | _ \<Rightarrow> Null)"

definition lower :: "column \<Rightarrow> column" where
  "lower e = (\<lambda>r. case e r of Str s \<Rightarrow> Str (lower_str s) | _ \<Rightarrow> Null)"

text \<open>
  \<^verbatim>\<open>to_timestamp(column, format)\<close>: the engine's parser for the format is a parameter
  \<open>parse\<close>; a string that does not parse gives null, as does null.
\<close>

definition to_timestamp :: "(string \<Rightarrow> timestamp option) \<Rightarrow> column \<Rightarrow> column" where
  "to_timestamp parse e =
     (\<lambda>r. case e r of
             Str s \<Rightarrow> (case parse s of Some t \<Rightarrow> Ts t | None \<Rightarrow> Null)
           | _ \<Rightarrow> Null)"

definition isNotNull :: "column \<Rightarrow> column" where
  "isNotNull e = (\<lambda>r. Bool (e r \<noteq> Null))"

definition isin :: "column \<Rightarrow> string list \<Rightarrow> column" where
  "isin e vals = (\<lambda>r. case e r of Str s \<Rightarrow> Bool (s \<in> set vals) | _ \<Rightarrow> Null)"

definition gt_lit :: "column \<Rightarrow> real \<Rightarrow> column" where
  "gt_lit e x = (\<lambda>r. case e r of Dbl p \<Rightarrow> Bool (p > x) | _ \<Rightarrow> Null)"

definition eq_lit :: "column \<Rightarrow> bool \<Rightarrow> column" where
  "eq_lit e b = (\<lambda>r. case e r of Bool x \<Rightarrow> Bool (x = b) | _ \<Rightarrow> Null)"

text \<open>The conjunction \<^verbatim>\<open>&\<close> of SQL: false wins, then null.\<close>

fun and3 :: "cell \<Rightarrow> cell \<Rightarrow> cell" where
  "and3 (Bool False) _ = Bool False"
| "and3 _ (Bool False) = Bool False"
| "and3 (Bool True) (Bool True) = Bool True"
| "and3 _ _ = Null"

definition and_col :: "column \<Rightarrow> column \<Rightarrow> column" where
  "and_col a b = (\<lambda>r. and3 (a r) (b r))"

text \<open>
  \<^verbatim>\<open>withColumn\<close> replaces a column of that name where it stands, or appends a new one.
\<close>

fun set_cell :: "string list \<Rightarrow> cell list \<Rightarrow> string \<Rightarrow> cell \<Rightarrow> cell list" where
  "set_cell (c # cs) (v # vs) n x = (if c = n then x # vs else v # set_cell cs vs n x)"
| "set_cell _ vs n x = vs"

definition withColumn :: "string \<Rightarrow> column \<Rightarrow> dataframe \<Rightarrow> dataframe" where
  "withColumn n e df =
     (if n \<in> set (columns df)
      then df\<lparr>rows := map (\<lambda>r. set_cell (columns df) r n (e (lookup (columns df) r))) (rows df)\<rparr>
      else \<lparr>columns = columns df @ [n],
            rows = map (\<lambda>r. r @ [e (lookup (columns df) r)]) (rows df)\<rparr>)"

text \<open>\<^verbatim>\<open>filter\<close> keeps the rows on which the condition is true (not false, not null).\<close>

definition filter_df :: "column \<Rightarrow> dataframe \<Rightarrow> dataframe" where
  "filter_df e df = df\<lparr>rows := filter (\<lambda>r. e (lookup (columns df) r) = Bool True) (rows df)\<rparr>"

definition select :: "string list \<Rightarrow> dataframe \<Rightarrow> dataframe" where
  "select names df =
     \<lparr>columns = names, rows = map (\<lambda>r. map (lookup (columns df) r) names) (rows df)\<rparr>"

text \<open>\<^verbatim>\<open>drop\<close> removes the named columns and keeps the others in their order.\<close>

definition drop_cols :: "string list \<Rightarrow> dataframe \<Rightarrow> dataframe" where
  "drop_cols names df = select (filter (\<lambda>c. c \<notin> set names) (columns df)) df"

text \<open>
  \<^verbatim>\<open>dropDuplicates(subset)\<close> is the engine's: an aggregation by the values of the
  subset's columns that keeps, for each key, the first row that reaches it. The order in
  which the rows of a frame reach the aggregation is the engine's business (partitions,
  shuffle), not the job's: it is the parameter \<open>order\<close>, about which nothing is assumed.
\<close>

fun first_per_key :: "'k list \<Rightarrow> ('r \<Rightarrow> 'k) \<Rightarrow> 'r list \<Rightarrow> 'r list" where
  "first_per_key seen key [] = []"
| "first_per_key seen key (r # rs) =
     (if key r \<in> set seen then first_per_key seen key rs
      else r # first_per_key (key r # seen) key rs)"

definition dropDuplicates ::
    "(cell list list \<Rightarrow> cell list list) \<Rightarrow> string list \<Rightarrow> dataframe \<Rightarrow> dataframe" where
  "dropDuplicates order keys df =
     df\<lparr>rows := first_per_key [] (\<lambda>r. map (lookup (columns df) r) keys) (order (rows df))\<rparr>"

definition isEmpty :: "dataframe \<Rightarrow> bool" where
  "isEmpty df = (rows df = [])"

definition count :: "dataframe \<Rightarrow> nat" where
  "count df = length (rows df)"

section \<open>The streaming job (spark_streaming_to_postgres.py)\<close>

subsection \<open>Config, the engine and the observable state\<close>

definition VALID_EVENT_TYPES :: "string list" where
  "VALID_EVENT_TYPES = [''view'', ''add_to_cart'', ''purchase'']"

definition MAX_RETRIES :: int where
  "MAX_RETRIES = 3"

definition RETRY_DELAY_SECONDS :: int where
  "RETRY_DELAY_SECONDS = 5"

text \<open>The columns of \<^verbatim>\<open>get_event_schema()\<close>, in order.\<close>

definition get_event_schema :: "string list" where
  "get_event_schema =
     [''event_id'', ''user_id'', ''product_id'', ''product_name'',
      ''category'', ''price'', ''event_type'', ''timestamp'']"

text \<open>
  What the job cannot decide is an oracle of the \<open>engine\<close>: the timestamp parser, the
  order in which the rows of a frame reach an aggregation (\<open>shuffle\<close>), the
  outcome of the \<open>n\<close>-th JDBC append of the run (saved, or an exception with its
  message), whether the \<open>n\<close>-th CSV write to the error folder succeeds, whether the
  \<open>n\<close>-th connection test succeeds, and how the streaming query ends once started
  (\<open>None\<close>: it returns; \<open>Some e\<close>: it raises \<open>e\<close>).
\<close>

datatype write_outcome = Saved | Failed string

record engine =
  ts_parse :: "string \<Rightarrow> timestamp option"
  shuffle :: "cell list list \<Rightarrow> cell list list"
  jdbc_save :: "nat \<Rightarrow> write_outcome"
  csv_write_ok :: "nat \<Rightarrow> bool"
  pg_connect :: "nat \<Rightarrow> bool"
  query_end :: "string option"

datatype level = INFO | WARNING | ERROR

text \<open>
  The state records what the job did: the log lines (level and message, with the
  placeholders of the f-string left in), the arguments of \<^verbatim>\<open>time.sleep\<close>, the number of
  connection tests, JDBC appends and error-folder writes attempted, the frames appended
  to the table, the frames written to the error folder with their batch id, how often
  the streaming query was started, and whether the session was stopped. The clock
  readings of the job feed only the metrics in the log lines and are left out.
\<close>

record sys =
  logged :: "(level \<times> string) list"
  slept :: "int list"
  conn_tests :: nat
  sink_attempts :: nat
  csv_writes :: nat
  saved :: "dataframe list"
  quarantined :: "(int \<times> dataframe) list"
  jobs_started :: nat
  spark_stopped :: bool

definition sys0 :: sys where
  "sys0 = \<lparr>logged = [], slept = [], conn_tests = 0, sink_attempts = 0, csv_writes = 0,
           saved = [], quarantined = [], jobs_started = 0, spark_stopped = False\<rparr>"

definition logger :: "level \<Rightarrow> string \<Rightarrow> sys \<Rightarrow> sys" where
  "logger l m s = s\<lparr>logged := logged s @ [(l, m)]\<rparr>"

definition sleep :: "int \<Rightarrow> sys \<Rightarrow> sys" where
  "sleep d s = s\<lparr>slept := slept s @ [d]\<rparr>"

datatype outcome = Returned | Raised string

subsection \<open>Data transformations\<close>

text \<open>
  \<^verbatim>\<open>clean_and_validate_data\<close>. A column that the expressions name and the frame lacks
  makes the engine raise at analysis; with the schema of the stream all eight exist.
\<close>

definition is_valid_expr :: column where
  "is_valid_expr =
     and_col (and_col (and_col (and_col (and_col
       (isNotNull (col ''event_id''))
       (isNotNull (col ''user_id'')))
       (isNotNull (col ''product_id'')))
       (isin (col ''event_type'') VALID_EVENT_TYPES))
       (gt_lit (col ''price'') 0))
       (isNotNull (col ''event_timestamp''))"

definition clean_and_validate_data ::
    "(string \<Rightarrow> timestamp option) \<Rightarrow> dataframe \<Rightarrow> string + (dataframe \<times> dataframe)" where
  "clean_and_validate_data parse df =
     (if \<not> set get_event_schema \<subseteq> set (columns df) then Inl ''AnalysisException''
      else
        let cleaned_df = fold (\<lambda>col_name d. withColumn col_name (trim (col col_name)) d)
                           [''event_id'', ''user_id'', ''product_id'', ''product_name'',
                            ''category'', ''event_type''] df;
            cleaned_df = withColumn ''event_type'' (lower (col ''event_type'')) cleaned_df;
            cleaned_df = withColumn ''event_timestamp''
                           (to_timestamp parse (col ''timestamp'')) cleaned_df;
            validated_df = withColumn ''is_valid'' is_valid_expr cleaned_df;
            valid_df = drop_cols [''is_valid'', ''timestamp'']
                         (filter_df (eq_lit (col ''is_valid'') True) validated_df);
            invalid_df = drop_cols [''is_valid'']
                           (filter_df (eq_lit (col ''is_valid'') False) validated_df)
        in Inr (valid_df, invalid_df))"

definition deduplicate_events :: "engine \<Rightarrow> dataframe \<Rightarrow> dataframe" where
  "deduplicate_events eng df = dropDuplicates (shuffle eng) [''event_id''] df"

definition prepare_for_postgres :: "dataframe \<Rightarrow> dataframe" where
  "prepare_for_postgres df =
     select [''event_id'', ''user_id'', ''product_id'', ''product_name'',
             ''category'', ''price'', ''event_type'', ''event_timestamp''] df"

subsection \<open>Database operations\<close>

text \<open>\<^verbatim>\<open>write_errors\<close>: a failed write is logged and swallowed.\<close>

definition write_errors :: "engine \<Rightarrow> dataframe \<Rightarrow> int \<Rightarrow> sys \<Rightarrow> sys" where
  "write_errors eng invalid_df batch_id s =
     (let s1 = s\<lparr>csv_writes := Suc (csv_writes s)\<rparr>
      in if csv_write_ok eng (csv_writes s)
         then logger INFO ''Batch {batch_id}: Invalid records saved to {error_path}''
                (s1\<lparr>quarantined := quarantined s1 @ [(batch_id, invalid_df)]\<rparr>)
         else logger WARNING ''Batch {batch_id}: Failed to write error records: {e}'' s1)"

text \<open>\<^verbatim>\<open>"duplicate key" in error_msg.lower()\<close>\<close>

definition is_duplicate_key :: "string \<Rightarrow> bool" where
  "is_duplicate_key error_msg = sublist ''duplicate key'' (lower_str error_msg)"

text \<open>
  The retry loop of \<^verbatim>\<open>write_to_postgres_with_retry\<close> over the attempt numbers that
  \<^verbatim>\<open>range(1, Config.MAX_RETRIES + 1)\<close> yields. Leaving the loop without a return ends
  the function normally.
\<close>

fun write_attempts :: "engine \<Rightarrow> dataframe \<Rightarrow> int list \<Rightarrow> sys \<Rightarrow> outcome \<times> sys" where
  "write_attempts eng final_df [] s = (Returned, s)"
| "write_attempts eng final_df (attempt # rest) s =
     (let s1 = s\<lparr>sink_attempts := Suc (sink_attempts s)\<rparr>
      in case jdbc_save eng (sink_attempts s) of
           Saved \<Rightarrow>
             (Returned,
              logger INFO ''  Batch #{batch_id} Metrics: ...''
                (logger INFO ''Batch {batch_id}: Successfully wrote {final_count} records to PostgreSQL''
                   (s1\<lparr>saved := saved s1 @ [final_df]\<rparr>)))
         | Failed error_msg \<Rightarrow>
             if is_duplicate_key error_msg
             then (Returned,
                   logger INFO ''Batch {batch_id}: Some duplicates skipped (expected behavior)'' s1)
             else
               (let s2 = logger WARNING
                           ''Batch {batch_id}: Write attempt {attempt}/{MAX_RETRIES} failed: {error_msg}'' s1
                in if attempt < MAX_RETRIES
                   then write_attempts eng final_df rest
                          (sleep RETRY_DELAY_SECONDS
                             (logger INFO ''Batch {batch_id}: Retrying in {RETRY_DELAY_SECONDS}s...'' s2))
                   else (Raised error_msg,
                         logger ERROR ''Batch {batch_id}: All retry attempts failed!'' s2)))"

definition write_to_postgres_with_retry ::
    "engine \<Rightarrow> dataframe \<Rightarrow> int \<Rightarrow> sys \<Rightarrow> outcome \<times> sys" where
  "write_to_postgres_with_retry eng batch_df batch_id s =
     (if isEmpty batch_df
      then (Returned, logger INFO ''Batch {batch_id}: Empty batch, skipping.'' s)
      else
        let s1 = logger INFO ''Batch {batch_id}: Processing {record_count} records...'' s
        in case clean_and_validate_data (ts_parse eng) batch_df of
             Inl e \<Rightarrow> (Raised e, s1)
           | Inr (valid_df, invalid_df) \<Rightarrow>
               (let valid_count = count valid_df;
                    invalid_count = count invalid_df;
                    s2 = logger INFO ''Batch {batch_id}: Valid: {valid_count}, Invalid: {invalid_count}'' s1;
                    s3 = (if invalid_count > 0 then write_errors eng invalid_df batch_id s2 else s2)
                in if valid_count = 0
                   then (Returned, logger INFO ''Batch {batch_id}: No valid records to write.'' s3)
                   else
                     (let deduped_df = deduplicate_events eng valid_df;
                          final_df = prepare_for_postgres deduped_df;
                          s4 = logger INFO ''Batch {batch_id}: After dedup: {final_count} records'' s3
                      in write_attempts eng final_df [1..MAX_RETRIES] s4)))"

subsection \<open>Health check and entry point\<close>

definition test_postgres_connection :: "engine \<Rightarrow> sys \<Rightarrow> bool \<times> sys" where
  "test_postgres_connection eng s =
     (let s1 = logger INFO ''Testing PostgreSQL connection...'' s;
          s2 = s1\<lparr>conn_tests := Suc (conn_tests s1)\<rparr>
      in if pg_connect eng (conn_tests s)
         then (True, logger INFO ''PostgreSQL connection successful!'' s2)
         else (False, logger ERROR ''PostgreSQL connection failed: {e}'' s2))"

text \<open>The loop of \<^verbatim>\<open>wait_for_postgres\<close> over \<^verbatim>\<open>range(1, max_retries + 1)\<close>.\<close>

fun wait_attempts :: "engine \<Rightarrow> int \<Rightarrow> int list \<Rightarrow> sys \<Rightarrow> bool \<times> sys" where
  "wait_attempts eng delay [] s =
     (False, logger ERROR ''PostgreSQL did not become available in time!'' s)"
| "wait_attempts eng delay (attempt # rest) s =
     (let (ok, s1) = test_postgres_connection eng s
      in if ok then (True, s1)
         else wait_attempts eng delay rest
                (sleep delay
                   (logger INFO
                      ''Attempt {attempt}/{max_retries}: PostgreSQL not ready. Waiting {delay}s...'' s1)))"

definition wait_for_postgres :: "engine \<Rightarrow> int \<Rightarrow> int \<Rightarrow> sys \<Rightarrow> bool \<times> sys" where
  "wait_for_postgres eng max_retries delay s =
     wait_attempts eng delay [1..max_retries]
       (logger INFO ''Waiting for PostgreSQL to be available...'' s)"

text \<open>
  \<^verbatim>\<open>start_streaming_job\<close> hands control to the engine, which calls
  \<open>write_to_postgres_with_retry\<close> for every micro-batch until the query ends.
\<close>

definition start_streaming_job :: "engine \<Rightarrow> sys \<Rightarrow> string option \<times> sys" where
  "start_streaming_job eng s =
     (query_end eng,
      logger INFO ''Starting Spark Structured Streaming Job''
        (s\<lparr>jobs_started := Suc (jobs_started s)\<rparr>))"

text \<open>\<^verbatim>\<open>main\<close>, with the defaults \<open>max_retries = 30\<close> and \<open>delay = 5\<close> of the call.\<close>

definition main :: "engine \<Rightarrow> sys \<Rightarrow> outcome \<times> sys" where
  "main eng s =
     (let s1 = logger INFO ''Initializing Spark Streaming to PostgreSQL pipeline...'' s;
          s2 = logger INFO ''Creating Spark session...'' s1;
          (ready, s3) = wait_for_postgres eng 30 5 s2;
          (res, s4) =
            (if \<not> ready
             then (Returned,
                   logger ERROR ''Cannot start streaming job - PostgreSQL unavailable'' s3)
             else (case start_streaming_job eng s3 of
                     (None, t) \<Rightarrow> (Returned, t)
                   | (Some e, t) \<Rightarrow> (Raised e, logger ERROR ''Streaming job failed: {e}'' t)))
      in (res, logger INFO ''Spark session stopped.'' (s4\<lparr>spark_stopped := True\<rparr>)))"

subsection \<open>Batches as the stream delivers them\<close>

text \<open>
  The stream is read with the explicit schema of \<open>get_event_schema\<close>, in which every
  field is nullable: a record of a batch has five optional strings, an optional double
  and two more optional strings, and a batch frame has exactly the schema's columns.
\<close>

record source_record =
  event_id :: "string option"
  user_id :: "string option"
  product_id :: "string option"
  product_name :: "string option"
  category :: "string option"
  price :: "real option"
  event_type :: "string option"
  timestamp :: "string option"

definition str_cell :: "string option \<Rightarrow> cell" where
  "str_cell x = (case x of None \<Rightarrow> Null | Some s \<Rightarrow> Str s)"

definition dbl_cell :: "real option \<Rightarrow> cell" where
  "dbl_cell x = (case x of None \<Rightarrow> Null | Some p \<Rightarrow> Dbl p)"

definition row_of :: "source_record \<Rightarrow> cell list" where
  "row_of r =
     [str_cell (event_id r), str_cell (user_id r), str_cell (product_id r),
      str_cell (product_name r), str_cell (category r), dbl_cell (price r),
      str_cell (event_type r), str_cell (timestamp r)]"

definition source_frame :: "source_record list \<Rightarrow> dataframe" where
  "source_frame recs = \<lparr>columns = get_event_schema, rows = map row_of recs\<rparr>"

subsection \<open>What the transformations compute on one record\<close>

text \<open>
  The cells that the cleaning steps leave for a record of a batch: the trimmed strings,
  the price, the trimmed and lower-cased event type, the raw timestamp string and the
  parsed timestamp; and the value of the column \<open>is_valid\<close> on them.
\<close>

definition cleaned_str :: "string option \<Rightarrow> cell" where
  "cleaned_str x = (case x of None \<Rightarrow> Null | Some s \<Rightarrow> Str (trim_spaces s))"

definition parsed :: "(string \<Rightarrow> timestamp option) \<Rightarrow> string option \<Rightarrow> cell" where
  "parsed parse x =
     (case x of None \<Rightarrow> Null
      | Some s \<Rightarrow> (case parse s of None \<Rightarrow> Null | Some t \<Rightarrow> Ts t))"

definition cleaned_row :: "(string \<Rightarrow> timestamp option) \<Rightarrow> source_record \<Rightarrow> cell list" where
  "cleaned_row parse r =
     [cleaned_str (event_id r), cleaned_str (user_id r), cleaned_str (product_id r),
      cleaned_str (product_name r), cleaned_str (category r), dbl_cell (price r),
      (case event_type r of None \<Rightarrow> Null | Some s \<Rightarrow> Str (lower_str (trim_spaces s))),
      str_cell (timestamp r), parsed parse (timestamp r)]"

definition valid_row :: "(string \<Rightarrow> timestamp option) \<Rightarrow> source_record \<Rightarrow> cell list" where
  "valid_row parse r =
     [cleaned_str (event_id r), cleaned_str (user_id r), cleaned_str (product_id r),
      cleaned_str (product_name r), cleaned_str (category r), dbl_cell (price r),
      (case event_type r of None \<Rightarrow> Null | Some s \<Rightarrow> Str (lower_str (trim_spaces s))),
      parsed parse (timestamp r)]"

definition validity :: "(string \<Rightarrow> timestamp option) \<Rightarrow> source_record \<Rightarrow> cell" where
  "validity parse r =
     is_valid_expr (lookup (get_event_schema @ [''event_timestamp'']) (cleaned_row parse r))"

text \<open>Sample records: a good one, one with a blank user id, one with price \<open>0\<close>,
  and one that repeats the event id of the first with another payload.\<close>

definition rec_ok :: source_record where
  "rec_ok = \<lparr>event_id = Some ''e1'', user_id = Some ''u1'', product_id = Some ''p1'',
             product_name = Some ''Yoga Mat'', category = Some ''Sports'', price = Some 19.99,
             event_type = Some ''VIEW'', timestamp = Some ''2024-01-15 10:30:00''\<rparr>"

definition rec_blank_user :: source_record where
  "rec_blank_user = rec_ok\<lparr>event_id := Some ''e2'', user_id := Some '' ''\<rparr>"

definition rec_free :: source_record where
  "rec_free = rec_ok\<lparr>event_id := Some ''e3'', price := Some 0\<rparr>"

definition rec_dup :: source_record where
  "rec_dup = rec_ok\<lparr>product_name := Some ''Basketball'', price := Some 25\<rparr>"

subsection \<open>Outcomes of one append, as the retry loop classifies them\<close>

text \<open>
  An append is retried when it failed with a message that is not classified as a
  duplicate key; \<open>after_failed_attempt\<close> is the state in which the next attempt then
  starts: the attempt is counted, the warning and the retry notice are logged, and the
  job has slept \<open>RETRY_DELAY_SECONDS\<close>.
\<close>

definition retryable :: "write_outcome \<Rightarrow> bool" where
  "retryable out = (case out of Saved \<Rightarrow> False | Failed m \<Rightarrow> \<not> is_duplicate_key m)"

definition after_failed_attempt :: "sys \<Rightarrow> sys" where
  "after_failed_attempt s =
     sleep RETRY_DELAY_SECONDS
       (logger INFO ''Batch {batch_id}: Retrying in {RETRY_DELAY_SECONDS}s...''
          (logger WARNING
             ''Batch {batch_id}: Write attempt {attempt}/{MAX_RETRIES} failed: {error_msg}''
             (s\<lparr>sink_attempts := Suc (sink_attempts s)\<rparr>)))"

subsection \<open>Sample engines for concrete runs\<close>

text \<open>
  A parser for the shape \<open>dddd-dd-dd dd:dd:dd\<close> with the usual ranges, standing for the
  engine's parser in concrete runs.
\<close>

definition digit :: "char \<Rightarrow> nat option" where
  "digit c = map_of (zip ''0123456789'' [0 ..< 10]) c"

fun number :: "nat \<Rightarrow> string \<Rightarrow> nat option" where
  "number acc [] = Some acc"
| "number acc (c # cs) = (case digit c of None \<Rightarrow> None | Some d \<Rightarrow> number (10 * acc + d) cs)"

definition sample_parse :: "string \<Rightarrow> timestamp option" where
  "sample_parse s =
     (if length s = 19
         \<and> map (\<lambda>i. s ! i) [4, 7, 10, 13, 16] = ''-- ::''
      then (case map (\<lambda>(i, n). number 0 (take n (drop i s)))
                   [(0, 4), (5, 2), (8, 2), (11, 2), (14, 2), (17, 2)] of
              [Some y, Some mo, Some d, Some h, Some mi, Some se] \<Rightarrow>
                if 1 \<le> mo \<and> mo \<le> 12 \<and> 1 \<le> d \<and> d \<le> 31 \<and> h \<le> 23 \<and> mi \<le> 59 \<and> se \<le> 59
                then Some (y, mo, d, h, mi, se) else None
            | _ \<Rightarrow> None)
      else None)"

text \<open>
  A database that never answers, one whose first two appends fail, and an engine whose
  aggregation receives the rows of a frame last to first; the first two receive them in
  the frame's order.
\<close>

definition engine_down :: engine where
  "engine_down =
     \<lparr>ts_parse = sample_parse, shuffle = (\<lambda>rs. rs), jdbc_save = (\<lambda>n. Saved),
      csv_write_ok = (\<lambda>n. True), pg_connect = (\<lambda>n. False), query_end = None\<rparr>"

definition engine_reversing :: engine where
  "engine_reversing = engine_down\<lparr>shuffle := rev\<rparr>"

definition engine_flaky :: engine where
  "engine_flaky =
     \<lparr>ts_parse = sample_parse, shuffle = (\<lambda>rs. rs),
      jdbc_save = (\<lambda>n. if n < 2 then Failed ''Connection refused'' else Saved),
      csv_write_ok = (\<lambda>n. True), pg_connect = (\<lambda>n. True), query_end = None\<rparr>"

section \<open>Properties of the rate limiter\<close>

lemma wait_events_per_second:
  "events_per_second (fst (wait clk sw)) = events_per_second (fst sw)"
  by (cases sw) (simp add: wait_def time_time_def Let_def split: prod.splits)

lemma wait_counter:
  "events_this_second (fst (wait clk sw)) =
     (if window_elapsed clk sw \<or> limit_reached clk sw then 1
      else events_this_second (fst sw) + 1)"
  by (cases sw)
     (simp add: wait_def time_time_def window_elapsed_def limit_reached_def Let_def
           split: prod.splits)

lemma wait_counter_bounds:
  assumes "1 \<le> events_per_second (fst sw)"
  shows "1 \<le> events_this_second (fst (wait clk sw)) \<or> events_this_second (fst sw) < 0"
    and "events_this_second (fst (wait clk sw)) \<le> events_per_second (fst sw)"
  using assms by (auto simp: wait_counter limit_reached_def split: if_splits)

lemma waits_events_per_second:
  "events_per_second (fst (waits clk n sw)) = events_per_second (fst sw)"
  by (induction n arbitrary: sw) (simp_all add: wait_events_per_second)

lemma waits_invariant:
  assumes "1 \<le> events_per_second (fst sw)" and "0 \<le> events_this_second (fst sw)"
  shows "1 \<le> events_this_second (fst (waits clk (Suc n) sw))
         \<and> events_this_second (fst (waits clk (Suc n) sw)) \<le> events_per_second (fst sw)"
  using assms
proof (induction n arbitrary: sw)
  case 0
  then show ?case using wait_counter_bounds [of sw clk] by auto
next
  case (Suc n)
  have step: "1 \<le> events_this_second (fst (wait clk sw))"
    using Suc.prems wait_counter_bounds(1) [of sw clk] by auto
  have "1 \<le> events_per_second (fst (wait clk sw))"
    using Suc.prems by (simp add: wait_events_per_second)
  moreover have "0 \<le> events_this_second (fst (wait clk sw))"
    using step by simp
  ultimately show ?case
    using Suc.IH [of "wait clk sw"] by (simp add: wait_events_per_second)
qed

lemma waits_Suc_right: "waits clk (Suc n) sw = wait clk (waits clk n sw)"
  by (induction n arbitrary: sw) simp_all

lemma RateLimiter_init_fields:
  "events_per_second (fst (RateLimiter_init clk R w)) = R"
  "events_this_second (fst (RateLimiter_init clk R w)) = 0"
  by (simp_all add: RateLimiter_init_def time_time_def Let_def split: prod.splits)

text \<open>
  C9. For every rate \<open>R \<ge> 1\<close>, after any call of \<^verbatim>\<open>wait()\<close> on a limiter built by the
  constructor the counter satisfies \<open>1 \<le> events_this_second \<le> R\<close>; one call sets the
  counter to \<open>1\<close> when the one-second window has elapsed or the limit is reached (a reset
  to \<open>0\<close> followed by the single increment), and adds exactly \<open>1\<close> otherwise.
\<close>

theorem wait_counter_within_rate:
  assumes "1 \<le> R"
  shows "(let sw = waits clk n (RateLimiter_init clk R w) in
            events_this_second (fst (wait clk sw)) =
              (if window_elapsed clk sw \<or> limit_reached clk sw then 1
               else events_this_second (fst sw) + 1)
            \<and> 1 \<le> events_this_second (fst (wait clk sw))
            \<and> events_this_second (fst (wait clk sw)) \<le> R)"
proof -
  let ?init = "RateLimiter_init clk R w"
  have r: "1 \<le> events_per_second (fst ?init)" and c: "0 \<le> events_this_second (fst ?init)"
    using assms by (simp_all add: RateLimiter_init_fields)
  have "waits clk (Suc n) ?init = wait clk (waits clk n ?init)"
    by (rule waits_Suc_right)
  then show ?thesis
    using waits_invariant [OF r c, of clk n]
    by (simp add: wait_counter RateLimiter_init_fields Let_def)
qed

theorem wait_counter_within_rate_witness:
  "(1::int) \<le> 2 \<and>
   events_this_second (fst (waits clock_tenths 2 (RateLimiter_init clock_tenths 2 world0))) = 2
   \<and> events_this_second (fst (wait clock_tenths
          (waits clock_tenths 2 (RateLimiter_init clock_tenths 2 world0)))) = 1
   \<and> 1 \<le> events_this_second (fst (wait clock_tenths
          (waits clock_tenths 2 (RateLimiter_init clock_tenths 2 world0))))
   \<and> events_this_second (fst (wait clock_tenths
          (waits clock_tenths 2 (RateLimiter_init clock_tenths 2 world0)))) \<le> 2"
  using wait_counter_within_rate [of 2 clock_tenths 2 world0]
  by (simp add: RateLimiter_init_def wait_def time_time_def time_sleep_def world0_def
        clock_tenths_def Let_def eval_nat_numeral)

lemma wait_counter_nonneg:
  "0 \<le> events_this_second (fst sw) \<Longrightarrow> 0 \<le> events_this_second (fst (wait clk sw))"
  by (simp add: wait_counter)

lemma waits_counter_nonneg:
  "0 \<le> events_this_second (fst sw) \<Longrightarrow> 0 \<le> events_this_second (fst (waits clk n sw))"
  by (induction n arbitrary: sw) (simp_all add: wait_counter_nonneg)

lemma wait_sleeps_when_limit_reached:
  assumes "limit_reached clk sw"
  shows "sleeps (snd (wait clk sw)) =
           sleeps (snd sw) @
             [if window_elapsed clk sw then 1
              else 1 - (clk (time_reads (snd sw)) - second_start (fst sw))]"
  using assms
  by (cases sw)
     (auto simp: wait_def time_time_def time_sleep_def window_elapsed_def limit_reached_def
           Let_def split: prod.splits if_splits)

text \<open>
  C3 (as the code has it). For every rate \<open>R \<le> 0\<close> the constructor accepts the rate,
  and the limiter throttles instead of being unlimited: every call of \<^verbatim>\<open>wait()\<close> finds
  the limit reached and sleeps for the rest of the current one-second window, a positive
  time (a full second when the window has just been reset), before it returns with the
  counter at \<open>1\<close>.
\<close>

theorem nonpositive_rate_sleeps_every_call:
  assumes "R \<le> 0"
  shows "(let sw = waits clk n (RateLimiter_init clk R w);
              d = (if window_elapsed clk sw then 1
                   else 1 - (clk (time_reads (snd sw)) - second_start (fst sw)))
          in events_per_second (fst sw) = R
             \<and> limit_reached clk sw
             \<and> 0 < d
             \<and> sleeps (snd (wait clk sw)) = sleeps (snd sw) @ [d]
             \<and> events_this_second (fst (wait clk sw)) = 1)"
proof -
  let ?sw = "waits clk n (RateLimiter_init clk R w)"
  have eps: "events_per_second (fst ?sw) = R"
    by (simp add: waits_events_per_second RateLimiter_init_fields)
  have "0 \<le> events_this_second (fst ?sw)"
    by (rule waits_counter_nonneg) (simp add: RateLimiter_init_fields)
  with assms eps have lim: "limit_reached clk ?sw"
    by (simp add: limit_reached_def)
  have pos: "0 < (if window_elapsed clk ?sw then (1::real)
                  else 1 - (clk (time_reads (snd ?sw)) - second_start (fst ?sw)))"
    by (simp add: window_elapsed_def)
  show ?thesis
    using eps lim pos wait_sleeps_when_limit_reached [OF lim]
    by (simp add: Let_def wait_counter)
qed

theorem nonpositive_rate_sleeps_every_call_witness:
  "(0::int) \<le> 0
   \<and> sleeps (snd (waits clock_tenths 1 (RateLimiter_init clock_tenths 0 world0))) = [9 / 10]
   \<and> sleeps (snd (wait clock_tenths
         (waits clock_tenths 1 (RateLimiter_init clock_tenths 0 world0)))) = [9 / 10, 9 / 10]
   \<and> events_this_second (fst (wait clock_tenths
         (waits clock_tenths 1 (RateLimiter_init clock_tenths 0 world0)))) = 1"
  using nonpositive_rate_sleeps_every_call [of 0 clock_tenths 1 world0]
  by (simp add: RateLimiter_init_def wait_def time_time_def time_sleep_def world0_def
        clock_tenths_def Let_def window_elapsed_def limit_reached_def)

text \<open>
  The claim of C3 as the specification states it fails: with rate \<open>0\<close> the constructor
  returns a limiter, and the first call of \<^verbatim>\<open>wait()\<close> on it sleeps for \<open>0.9\<close> seconds.
\<close>

theorem nonpositive_rate_unlimited_counterexample:
  "events_per_second (fst (RateLimiter_init clock_tenths 0 world0)) = 0
   \<and> sleeps (snd (RateLimiter_init clock_tenths 0 world0)) = []
   \<and> sleeps (snd (wait clock_tenths (RateLimiter_init clock_tenths 0 world0))) = [9 / 10]"
  by (simp add: RateLimiter_init_def wait_def time_time_def time_sleep_def world0_def
        clock_tenths_def Let_def)

section \<open>Properties of the startup health check\<close>

lemma test_postgres_connection_effect:
  "conn_tests (snd (test_postgres_connection eng s)) = Suc (conn_tests s)"
  "slept (snd (test_postgres_connection eng s)) = slept s"
  "jobs_started (snd (test_postgres_connection eng s)) = jobs_started s"
  "fst (test_postgres_connection eng s) = pg_connect eng (conn_tests s)"
  by (simp_all add: test_postgres_connection_def logger_def Let_def)

lemma wait_attempts_Cons:
  "wait_attempts eng d (a # xs) s =
     (if pg_connect eng (conn_tests s) then test_postgres_connection eng s
      else wait_attempts eng d xs
             (sleep d (logger INFO
                ''Attempt {attempt}/{max_retries}: PostgreSQL not ready. Waiting {delay}s...''
                (snd (test_postgres_connection eng s)))))"
  by (simp add: test_postgres_connection_def Let_def)

lemma wait_attempts_jobs_started:
  "jobs_started (snd (wait_attempts eng d xs s)) = jobs_started s"
proof (induction xs arbitrary: s)
  case Nil
  show ?case by (simp add: logger_def)
next
  case (Cons a xs)
  show ?case
    unfolding wait_attempts_Cons
    by (simp add: Cons.IH test_postgres_connection_effect sleep_def logger_def)
qed

lemma wait_attempts_conn_tests:
  "conn_tests s \<le> conn_tests (snd (wait_attempts eng d xs s))
   \<and> conn_tests (snd (wait_attempts eng d xs s)) \<le> conn_tests s + length xs"
proof (induction xs arbitrary: s)
  case Nil
  show ?case by (simp add: logger_def)
next
  case (Cons a xs)
  let ?s' = "sleep d (logger INFO
                ''Attempt {attempt}/{max_retries}: PostgreSQL not ready. Waiting {delay}s...''
                (snd (test_postgres_connection eng s)))"
  have c: "conn_tests ?s' = Suc (conn_tests s)"
    by (simp add: test_postgres_connection_effect sleep_def logger_def)
  show ?case
    unfolding wait_attempts_Cons
    using Cons.IH [of ?s'] c
    by (simp add: test_postgres_connection_effect)
qed

lemma wait_attempts_ok_tested:
  "fst (wait_attempts eng d xs s) \<Longrightarrow> conn_tests s < conn_tests (snd (wait_attempts eng d xs s))"
proof (induction xs arbitrary: s)
  case Nil
  then show ?case by simp
next
  case (Cons a xs)
  let ?s' = "sleep d (logger INFO
                ''Attempt {attempt}/{max_retries}: PostgreSQL not ready. Waiting {delay}s...''
                (snd (test_postgres_connection eng s)))"
  have c: "conn_tests ?s' = Suc (conn_tests s)"
    by (simp add: test_postgres_connection_effect sleep_def logger_def)
  show ?case
  proof (cases "pg_connect eng (conn_tests s)")
    case True
    then show ?thesis
      unfolding wait_attempts_Cons by (simp add: test_postgres_connection_effect)
  next
    case False
    with Cons.prems have "fst (wait_attempts eng d xs ?s')"
      unfolding wait_attempts_Cons by simp
    from Cons.IH [OF this] c False show ?thesis
      unfolding wait_attempts_Cons by simp
  qed
qed

lemma wait_attempts_slept:
  "slept (snd (wait_attempts eng d xs s)) =
     slept s @ replicate (conn_tests (snd (wait_attempts eng d xs s)) - conn_tests s
                           - (if fst (wait_attempts eng d xs s) then 1 else 0)) d"
proof (induction xs arbitrary: s)
  case Nil
  show ?case by (simp add: logger_def)
next
  case (Cons a xs)
  let ?s' = "sleep d (logger INFO
                ''Attempt {attempt}/{max_retries}: PostgreSQL not ready. Waiting {delay}s...''
                (snd (test_postgres_connection eng s)))"
  let ?r = "wait_attempts eng d xs ?s'"
  have c: "conn_tests ?s' = Suc (conn_tests s)" and sl: "slept ?s' = slept s @ [d]"
    by (simp_all add: test_postgres_connection_effect sleep_def logger_def)
  show ?case
  proof (cases "pg_connect eng (conn_tests s)")
    case True
    then show ?thesis
      unfolding wait_attempts_Cons
      by (simp add: test_postgres_connection_effect)
  next
    case False
    have ge: "Suc (conn_tests s) \<le> conn_tests (snd ?r)"
      using wait_attempts_conn_tests [of ?s' eng d xs] c by simp
    have fin: "fst ?r \<Longrightarrow> Suc (Suc (conn_tests s)) \<le> conn_tests (snd ?r)"
      using wait_attempts_ok_tested [of eng d xs ?s'] c by simp
    have eq: "wait_attempts eng d (a # xs) s = ?r"
      using False unfolding wait_attempts_Cons by simp
    have "slept (snd ?r) =
            slept s @ d # replicate (conn_tests (snd ?r) - Suc (conn_tests s)
                                      - (if fst ?r then 1 else 0)) d"
      using Cons.IH [of ?s'] c sl by simp
    also have "d # replicate (conn_tests (snd ?r) - Suc (conn_tests s)
                                      - (if fst ?r then 1 else 0)) d
               = replicate (conn_tests (snd ?r) - conn_tests s - (if fst ?r then 1 else 0)) d"
    proof -
      have "Suc (conn_tests (snd ?r) - Suc (conn_tests s) - (if fst ?r then 1 else 0))
            = conn_tests (snd ?r) - conn_tests s - (if fst ?r then 1 else 0)"
        using ge fin by (auto split: if_splits)
      then show ?thesis by (metis replicate_Suc)
    qed
    finally show ?thesis unfolding eq .
  qed
qed

lemma wait_attempts_all_fail:
  "\<forall>i<length xs. \<not> pg_connect eng (conn_tests s + i) \<Longrightarrow>
   fst (wait_attempts eng d xs s) = False
   \<and> conn_tests (snd (wait_attempts eng d xs s)) = conn_tests s + length xs
   \<and> slept (snd (wait_attempts eng d xs s)) = slept s @ replicate (length xs) d"
proof (induction xs arbitrary: s)
  case Nil
  show ?case by (simp add: logger_def)
next
  case (Cons a xs)
  let ?s' = "sleep d (logger INFO
                ''Attempt {attempt}/{max_retries}: PostgreSQL not ready. Waiting {delay}s...''
                (snd (test_postgres_connection eng s)))"
  have c: "conn_tests ?s' = Suc (conn_tests s)" and sl: "slept ?s' = slept s @ [d]"
    by (simp_all add: test_postgres_connection_effect sleep_def logger_def)
  have first: "\<not> pg_connect eng (conn_tests s)"
    using Cons.prems by auto
  have rest: "\<forall>i<length xs. \<not> pg_connect eng (conn_tests ?s' + i)"
    using Cons.prems c by auto
  show ?case
    unfolding wait_attempts_Cons
    using first Cons.IH [OF rest] c sl
    by (simp add: replicate_append_same)
qed

lemma wait_for_postgres_default:
  "wait_for_postgres eng 30 5 s =
     wait_attempts eng 5 [1..30] (logger INFO ''Waiting for PostgreSQL to be available...'' s)"
  by (simp add: wait_for_postgres_def)

lemma main_unfold:
  "main eng s =
     (let s2 = logger INFO ''Creating Spark session...''
                 (logger INFO ''Initializing Spark Streaming to PostgreSQL pipeline...'' s);
          r = wait_for_postgres eng 30 5 s2
      in if fst r
         then (case query_end eng of None \<Rightarrow> Returned | Some e \<Rightarrow> Raised e,
               logger INFO ''Spark session stopped.''
                 ((case query_end eng of
                     None \<Rightarrow> snd (start_streaming_job eng (snd r))
                   | Some e \<Rightarrow> logger ERROR ''Streaming job failed: {e}''
                                (snd (start_streaming_job eng (snd r))))\<lparr>spark_stopped := True\<rparr>))
         else (Returned,
               logger INFO ''Spark session stopped.''
                 ((logger ERROR ''Cannot start streaming job - PostgreSQL unavailable'' (snd r))
                    \<lparr>spark_stopped := True\<rparr>)))"
  by (simp add: main_def Let_def start_streaming_job_def split: prod.splits option.splits)

text \<open>
  C8 (as the code has it). Startup polls the sink at most 30 times, sleeping 5 seconds
  after each failed test, so the polling ends provided that every connection test
  answers. When all 30 tests fail, the streaming job is not started: \<open>main\<close> logs the
  error \<open>Cannot start streaming job - PostgreSQL unavailable\<close>, stops the session and
  returns normally; no error is raised to the caller.
\<close>

theorem startup_polling_bounded:
  "(let (res, s') = main eng s in
      conn_tests s' \<le> conn_tests s + 30
      \<and> slept s' = slept s @ replicate (conn_tests s' - conn_tests s
                                          - (if jobs_started s' = jobs_started s then 0 else 1)) 5
      \<and> ((\<forall>i<30. \<not> pg_connect eng (conn_tests s + i)) \<longrightarrow>
            res = Returned
            \<and> jobs_started s' = jobs_started s
            \<and> conn_tests s' = conn_tests s + 30
            \<and> slept s' = slept s @ replicate 30 5
            \<and> (ERROR, ''Cannot start streaming job - PostgreSQL unavailable'') \<in> set (logged s')
            \<and> spark_stopped s'))"
proof -
  let ?s2 = "logger INFO ''Waiting for PostgreSQL to be available...''
               (logger INFO ''Creating Spark session...''
                 (logger INFO ''Initializing Spark Streaming to PostgreSQL pipeline...'' s))"
  let ?r = "wait_attempts eng 5 [1..30] ?s2"
  have s2: "conn_tests ?s2 = conn_tests s" "slept ?s2 = slept s" "jobs_started ?s2 = jobs_started s"
    by (simp_all add: logger_def)
  have len: "length [1..30::int] = 30" by simp
  have bound: "conn_tests (snd ?r) \<le> conn_tests s + 30"
    using wait_attempts_conn_tests [of ?s2 eng 5 "[1..30]"] s2 len by simp
  have sl: "slept (snd ?r) = slept s @ replicate (conn_tests (snd ?r) - conn_tests s
                                                  - (if fst ?r then 1 else 0)) 5"
    using wait_attempts_slept [of eng 5 "[1..30]" ?s2] s2 by simp
  have js: "jobs_started (snd ?r) = jobs_started s"
    using wait_attempts_jobs_started [of eng 5 "[1..30]" ?s2] s2 by simp
  have fail: "fst ?r = False \<and> conn_tests (snd ?r) = conn_tests s + 30
              \<and> slept (snd ?r) = slept s @ replicate 30 5"
    if "\<forall>i<30. \<not> pg_connect eng (conn_tests s + i)"
    using wait_attempts_all_fail [of "[1..30]" eng ?s2 5] that s2 len by simp
  show ?thesis
  proof (cases "fst ?r")
    case True
    then have nf: "\<not> (\<forall>i<30. \<not> pg_connect eng (conn_tests s + i))"
      using fail by blast
    show ?thesis
      using True nf bound sl js
      by (simp add: main_unfold wait_for_postgres_default Let_def logger_def
            start_streaming_job_def split: option.splits)
  next
    case False
    show ?thesis
      using False bound sl js fail
      by (simp add: main_unfold wait_for_postgres_default Let_def logger_def)
  qed
qed

theorem startup_polling_bounded_witness:
  "\<not> pg_connect engine_down (conn_tests sys0)
   \<and> \<not> pg_connect engine_down (conn_tests sys0 + 29)
   \<and> fst (main engine_down sys0) = Returned
   \<and> jobs_started (snd (main engine_down sys0)) = 0
   \<and> conn_tests (snd (main engine_down sys0)) = 30
   \<and> slept (snd (main engine_down sys0)) = replicate 30 5
   \<and> spark_stopped (snd (main engine_down sys0))"
  using startup_polling_bounded [of engine_down sys0]
  by (simp add: engine_down_def sys0_def case_prod_beta)

text \<open>
  The claim of C8 as the specification states it fails: with a sink that fails all 30
  tests \<open>main\<close> does not abort with an error; it returns, as it does after a run in which
  the sink answered and the streaming query ended.
\<close>

theorem startup_failure_returns_counterexample:
  "map (pg_connect engine_down) [0..<30] = replicate 30 False
   \<and> fst (main engine_down sys0) = Returned
   \<and> jobs_started (snd (main engine_down sys0)) = 0
   \<and> fst (main engine_flaky sys0) = Returned
   \<and> jobs_started (snd (main engine_flaky sys0)) = 1"
proof -
  let ?s2 = "logger INFO ''Waiting for PostgreSQL to be available...''
               (logger INFO ''Creating Spark session...''
                 (logger INFO ''Initializing Spark Streaming to PostgreSQL pipeline...'' sys0))"
  have down: "map (pg_connect engine_down) [0..<30] = replicate 30 False"
    by (simp add: engine_down_def map_replicate_const)
  have "\<forall>i<length [1..30::int]. \<not> pg_connect engine_down (conn_tests ?s2 + i)"
    by (simp add: engine_down_def)
  from wait_attempts_all_fail [OF this, of 5]
  have fail: "fst (wait_attempts engine_down 5 [1..30] ?s2) = False" by simp
  have js: "jobs_started (snd (wait_attempts eng 5 [1..30] ?s2)) = 0" for eng
    by (simp add: wait_attempts_jobs_started logger_def sys0_def)
  have r1: "fst (main engine_down sys0) = Returned"
      "jobs_started (snd (main engine_down sys0)) = 0"
    using fail js [of engine_down]
    by (simp_all add: main_unfold wait_for_postgres_default Let_def logger_def)
  have up: "[1..30::int] = 1 # [2..30]"
    by (simp add: upto_rec1)
  have ok: "fst (wait_attempts engine_flaky 5 [1..30] ?s2) = True"
    unfolding up wait_attempts_Cons
    by (simp add: engine_flaky_def test_postgres_connection_effect)
  have r2: "fst (main engine_flaky sys0) = Returned"
      "jobs_started (snd (main engine_flaky sys0)) = 1"
    using ok js [of engine_flaky]
    by (simp_all add: main_unfold wait_for_postgres_default Let_def logger_def
          start_streaming_job_def engine_flaky_def)
  show ?thesis using down r1 r2 by simp
qed

section \<open>Properties of validation and quarantine\<close>

lemma trim_str_cell [simp]:
  "(case str_cell x of Str s \<Rightarrow> Str (trim_spaces s) | _ \<Rightarrow> Null) = cleaned_str x"
  by (cases x) (simp_all add: str_cell_def cleaned_str_def)

lemma lower_cleaned_str [simp]:
  "(case cleaned_str x of Str s \<Rightarrow> Str (lower_str s) | _ \<Rightarrow> Null) =
   (case x of None \<Rightarrow> Null | Some s \<Rightarrow> Str (lower_str (trim_spaces s)))"
  by (cases x) (simp_all add: cleaned_str_def)

lemma to_timestamp_str_cell [simp]:
  "(case str_cell x of Str s \<Rightarrow> (case parse s of Some t \<Rightarrow> Ts t | None \<Rightarrow> Null) | _ \<Rightarrow> Null)
   = parsed parse x"
  by (cases x) (simp_all add: str_cell_def parsed_def split: option.splits)

lemma withColumn_map:
  "withColumn n e \<lparr>columns = cs, rows = map f recs\<rparr> =
     (if n \<in> set cs
      then \<lparr>columns = cs, rows = map (\<lambda>r. set_cell cs (f r) n (e (lookup cs (f r)))) recs\<rparr>
      else \<lparr>columns = cs @ [n], rows = map (\<lambda>r. f r @ [e (lookup cs (f r))]) recs\<rparr>)"
  by (simp add: withColumn_def o_def)

lemma filter_df_map:
  "filter_df e \<lparr>columns = cs, rows = map f recs\<rparr> =
     \<lparr>columns = cs, rows = map f (filter (\<lambda>r. e (lookup cs (f r)) = Bool True) recs)\<rparr>"
  by (simp add: filter_df_def filter_map o_def)

lemma select_map:
  "select names \<lparr>columns = cs, rows = map f recs\<rparr> =
     \<lparr>columns = names, rows = map (\<lambda>r. map (lookup cs (f r)) names) recs\<rparr>"
  by (simp add: select_def o_def)

lemma eq_lit_True [simp]:
  "((case v of Bool x \<Rightarrow> Bool (x = b) | _ \<Rightarrow> Null) = Bool True) = (v = Bool b)"
  by (cases v) auto

lemma trimmed_frame:
  "fold (\<lambda>col_name d. withColumn col_name (trim (col col_name)) d)
        [''event_id'', ''user_id'', ''product_id'', ''product_name'',
         ''category'', ''event_type''] (source_frame recs) =
   \<lparr>columns = get_event_schema,
    rows = map (\<lambda>r. [cleaned_str (event_id r), cleaned_str (user_id r), cleaned_str (product_id r),
      cleaned_str (product_name r), cleaned_str (category r), dbl_cell (price r),
      cleaned_str (event_type r), str_cell (timestamp r)]) recs\<rparr>"
  by (simp add: source_frame_def get_event_schema_def withColumn_map row_of_def trim_def col_def)

lemma validated_frame:
  "withColumn ''is_valid'' is_valid_expr
     (withColumn ''event_timestamp'' (to_timestamp parse (col ''timestamp''))
        (withColumn ''event_type'' (lower (col ''event_type''))
           (fold (\<lambda>col_name d. withColumn col_name (trim (col col_name)) d)
              [''event_id'', ''user_id'', ''product_id'', ''product_name'',
               ''category'', ''event_type''] (source_frame recs)))) =
   \<lparr>columns = get_event_schema @ [''event_timestamp'', ''is_valid''],
    rows = map (\<lambda>r. cleaned_row parse r @ [validity parse r]) recs\<rparr>"
  unfolding trimmed_frame
  by (simp add: get_event_schema_def withColumn_map lower_def to_timestamp_def col_def
        cleaned_row_def validity_def)

text \<open>The two frames that \<open>clean_and_validate_data\<close> returns for a batch of the stream.\<close>

lemma clean_and_validate_source_frame:
  "clean_and_validate_data parse (source_frame recs) =
     Inr (\<lparr>columns = [''event_id'', ''user_id'', ''product_id'', ''product_name'',
                       ''category'', ''price'', ''event_type'', ''event_timestamp''],
           rows = map (valid_row parse) (filter (\<lambda>r. validity parse r = Bool True) recs)\<rparr>,
          \<lparr>columns = get_event_schema @ [''event_timestamp''],
           rows = map (cleaned_row parse) (filter (\<lambda>r. validity parse r = Bool False) recs)\<rparr>)"
proof -
  have cols: "set get_event_schema \<subseteq> set (columns (source_frame recs))"
    by (simp add: source_frame_def)
  show ?thesis
    unfolding clean_and_validate_data_def Let_def validated_frame
    using cols
    by (simp add: filter_df_map drop_cols_def select_map get_event_schema_def eq_lit_def col_def
          cleaned_row_def valid_row_def)
qed

lemma and3_True [simp]: "(and3 a b = Bool True) = (a = Bool True \<and> b = Bool True)"
  by (cases "(a, b)" rule: and3.cases) simp_all

lemma and3_False [simp]: "(and3 a b = Bool False) = (a = Bool False \<or> b = Bool False)"
  by (cases "(a, b)" rule: and3.cases) simp_all

lemma cleaned_str_Null [simp]: "(cleaned_str x = Null) = (x = None)"
  by (cases x) (simp_all add: cleaned_str_def)

lemma parsed_Null [simp]:
  "(parsed parse x = Null) = (case x of None \<Rightarrow> True | Some s \<Rightarrow> parse s = None)"
  by (cases x) (simp_all add: parsed_def split: option.splits)

lemma validity_True:
  "(validity parse r = Bool True) =
     (event_id r \<noteq> None \<and> user_id r \<noteq> None \<and> product_id r \<noteq> None
      \<and> (\<exists>t. event_type r = Some t \<and> lower_str (trim_spaces t) \<in> set VALID_EVENT_TYPES)
      \<and> (\<exists>p. price r = Some p \<and> 0 < p)
      \<and> (\<exists>ts. timestamp r = Some ts \<and> parse ts \<noteq> None))"
  by (cases "event_type r"; cases "price r"; cases "timestamp r")
     (simp_all add: validity_def is_valid_expr_def and_col_def isNotNull_def isin_def gt_lit_def
        col_def cleaned_row_def get_event_schema_def dbl_cell_def)

lemma validity_False:
  "(validity parse r = Bool False) =
     (event_id r = None \<or> user_id r = None \<or> product_id r = None
      \<or> (\<exists>t. event_type r = Some t \<and> lower_str (trim_spaces t) \<notin> set VALID_EVENT_TYPES)
      \<or> (\<exists>p. price r = Some p \<and> p \<le> 0)
      \<or> (\<forall>ts. timestamp r = Some ts \<longrightarrow> parse ts = None))"
  by (cases "event_type r"; cases "price r"; cases "timestamp r")
     (auto simp add: validity_def is_valid_expr_def and_col_def isNotNull_def isin_def gt_lit_def
        col_def cleaned_row_def get_event_schema_def dbl_cell_def)

lemma validity_rec_ok: "validity sample_parse rec_ok = Bool True"
  by code_simp

text \<open>
  C1 (as the code has it). The validation step puts a record into the valid frame if and
  only if \<open>event_id\<close>, \<open>user_id\<close> and \<open>product_id\<close> are non-null, the trimmed and
  lower-cased \<open>event_type\<close> is one of \<open>view\<close>, \<open>add_to_cart\<close>, \<open>purchase\<close>, the price is
  greater than \<open>0\<close> and the timestamp parses. The three identifiers are only tested for
  null: one that is empty after trimming does not make the record invalid.
\<close>

theorem validation_accepts_iff:
  "(case clean_and_validate_data parse (source_frame recs) of
      Inl e \<Rightarrow> False
    | Inr (valid_df, invalid_df) \<Rightarrow>
        rows valid_df = map (valid_row parse) (filter (\<lambda>r. validity parse r = Bool True) recs))
   \<and> ((validity parse r = Bool True) =
        (event_id r \<noteq> None \<and> user_id r \<noteq> None \<and> product_id r \<noteq> None
         \<and> (\<exists>t. event_type r = Some t \<and> lower_str (trim_spaces t) \<in> set VALID_EVENT_TYPES)
         \<and> (\<exists>p. price r = Some p \<and> 0 < p)
         \<and> (\<exists>ts. timestamp r = Some ts \<and> parse ts \<noteq> None)))"
  by (simp add: clean_and_validate_source_frame validity_True)

theorem validation_accepts_iff_witness:
  "validity sample_parse rec_ok = Bool True
   \<and> event_id rec_ok \<noteq> None \<and> user_id rec_ok \<noteq> None \<and> product_id rec_ok \<noteq> None
   \<and> (\<exists>t. event_type rec_ok = Some t \<and> lower_str (trim_spaces t) \<in> set VALID_EVENT_TYPES)
   \<and> (\<exists>p. price rec_ok = Some p \<and> 0 < p)
   \<and> (\<exists>ts. timestamp rec_ok = Some ts \<and> sample_parse ts \<noteq> None)"
  using validation_accepts_iff [of sample_parse "[rec_ok]" rec_ok] validity_rec_ok
  by simp

text \<open>
  The claim of C1 as the specification states it fails: a record whose \<open>user_id\<close> is a
  single space, hence empty after trimming, comes out in the valid frame.
\<close>

theorem blank_user_id_counterexample:
  "user_id rec_blank_user = Some '' '' \<and> trim_spaces '' '' = []
   \<and> clean_and_validate_data sample_parse (source_frame [rec_blank_user]) =
       Inr (\<lparr>columns = [''event_id'', ''user_id'', ''product_id'', ''product_name'',
                         ''category'', ''price'', ''event_type'', ''event_timestamp''],
             rows = [[Str ''e2'', Str [], Str ''p1'', Str ''Yoga Mat'', Str ''Sports'',
                      Dbl 19.99, Str ''view'', Ts (2024, 1, 15, 10, 30, 0)]]\<rparr>,
            \<lparr>columns = [''event_id'', ''user_id'', ''product_id'', ''product_name'',
                         ''category'', ''price'', ''event_type'', ''timestamp'',
                         ''event_timestamp''],
             rows = []\<rparr>)"
  by code_simp

text \<open>
  C5 (as the code has it). The frame of quarantined records has the eight source columns
  in the source's order, none dropped, followed by one more column, \<open>event_timestamp\<close>;
  only \<open>is_valid\<close> is removed. Its rows are the records on which the validity flag is
  false; the six fields \<open>event_id\<close>, \<open>user_id\<close>, \<open>product_id\<close>, \<open>product_name\<close>,
  \<open>category\<close> and \<open>event_type\<close> hold the trimmed values (the event type also
  lower-cased), the price and the timestamp string are as read. \<open>write_errors\<close> stores
  this frame under the batch id when the write succeeds.
\<close>

lemma quarantine_price_and_timestamp_as_read:
  "length (cleaned_row parse r) = 9
   \<and> cleaned_row parse r ! 5 = row_of r ! 5
   \<and> cleaned_row parse r ! 7 = row_of r ! 7"
  by (simp add: cleaned_row_def row_of_def)

theorem quarantine_columns:
  "(case clean_and_validate_data parse (source_frame recs) of
      Inl e \<Rightarrow> False
    | Inr (valid_df, invalid_df) \<Rightarrow>
        columns invalid_df = get_event_schema @ [''event_timestamp'']
        \<and> rows invalid_df =
            map (cleaned_row parse) (filter (\<lambda>r. validity parse r = Bool False) recs)
        \<and> (\<forall>row \<in> set (rows invalid_df). length row = 9)
        \<and> (csv_write_ok eng (csv_writes s) \<longrightarrow>
             quarantined (write_errors eng invalid_df batch_id s) =
               quarantined s @ [(batch_id, invalid_df)]))"
  by (auto simp: clean_and_validate_source_frame write_errors_def logger_def Let_def
        cleaned_row_def)

theorem quarantine_columns_witness:
  "csv_write_ok engine_down (csv_writes sys0)
   \<and> (case clean_and_validate_data sample_parse (source_frame [rec_ok, rec_free]) of
        Inl e \<Rightarrow> False
      | Inr (valid_df, invalid_df) \<Rightarrow>
          length (columns invalid_df) = 9 \<and> length (rows invalid_df) = 1
          \<and> quarantined (write_errors engine_down invalid_df 7 sys0) = [(7, invalid_df)])"
proof -
  have ok: "csv_write_ok engine_down (csv_writes sys0)"
    by (simp add: engine_down_def)
  have v: "validity sample_parse rec_ok = Bool True" "validity sample_parse rec_free = Bool False"
    by code_simp+
  show ?thesis
    using ok v quarantine_columns [of sample_parse "[rec_ok, rec_free]" engine_down sys0 7]
    by (simp add: clean_and_validate_source_frame get_event_schema_def sys0_def)
qed

text \<open>
  The claim of C5 as the specification states it fails: the quarantined record of a
  batch with the eight source columns has nine columns.
\<close>

theorem quarantine_extra_column_counterexample:
  "columns (source_frame [rec_free]) =
     [''event_id'', ''user_id'', ''product_id'', ''product_name'',
      ''category'', ''price'', ''event_type'', ''timestamp'']
   \<and> clean_and_validate_data sample_parse (source_frame [rec_free]) =
       Inr (\<lparr>columns = [''event_id'', ''user_id'', ''product_id'', ''product_name'',
                         ''category'', ''price'', ''event_type'', ''event_timestamp''],
             rows = []\<rparr>,
            \<lparr>columns = [''event_id'', ''user_id'', ''product_id'', ''product_name'',
                         ''category'', ''price'', ''event_type'', ''timestamp'',
                         ''event_timestamp''],
             rows = [[Str ''e3'', Str ''u1'', Str ''p1'', Str ''Yoga Mat'', Str ''Sports'',
                      Dbl 0, Str ''view'', Str ''2024-01-15 10:30:00'',
                      Ts (2024, 1, 15, 10, 30, 0)]]\<rparr>)"
  by code_simp

section \<open>Properties of deduplication\<close>

lemma first_per_key_subset: "set (first_per_key seen key rs) \<subseteq> set rs"
  by (induction rs arbitrary: seen) auto

lemma first_per_key_keys:
  "key ` set (first_per_key seen key rs) = key ` set rs - set seen"
  by (induction rs arbitrary: seen) auto

lemma first_per_key_distinct: "distinct (map key (first_per_key seen key rs))"
  by (induction rs arbitrary: seen) (auto simp: first_per_key_keys)

lemma first_per_key_first:
  "r \<in> set (first_per_key seen key rs) \<Longrightarrow> find (\<lambda>x. key x = key r) rs = Some r"
proof (induction rs arbitrary: seen)
  case Nil
  then show ?case by simp
next
  case (Cons a rs)
  show ?case
  proof (cases "key a \<in> set seen")
    case True
    with Cons.prems have in_rest: "r \<in> set (first_per_key seen key rs)" by simp
    then have "key r \<in> key ` set rs - set seen"
      using first_per_key_keys [of key seen rs] by blast
    with True have "key a \<noteq> key r" by auto
    with Cons.IH [OF in_rest] show ?thesis by simp
  next
    case False
    show ?thesis
    proof (cases "r = a")
      case True
      then show ?thesis by simp
    next
      case ne: False
      with False Cons.prems have in_rest: "r \<in> set (first_per_key (key a # seen) key rs)"
        by simp
      then have "key r \<in> key ` set rs - set (key a # seen)"
        using first_per_key_keys [of key "key a # seen" rs] by blast
      then have "key a \<noteq> key r" by auto
      with Cons.IH [OF in_rest] show ?thesis by simp
    qed
  qed
qed

lemma dedup_sample:
  "rows (deduplicate_events engine_down (source_frame [rec_ok, rec_dup, rec_free])) =
     [row_of rec_ok, row_of rec_free]"
  "row_of rec_ok \<noteq> row_of rec_dup"
  "lookup get_event_schema (row_of rec_ok) ''event_id'' = Str ''e1''"
  "lookup get_event_schema (row_of rec_dup) ''event_id'' = Str ''e1''"
  "set (shuffle engine_down (rows (source_frame [rec_ok, rec_dup, rec_free]))) =
     set (rows (source_frame [rec_ok, rec_dup, rec_free]))"
  by code_simp+

text \<open>
  C4 (as the code has it). Deduplication keeps the schema and returns at most one record
  per \<open>event_id\<close>, whatever the engine does. When the engine's aggregation receives
  exactly the rows of the batch, every \<open>event_id\<close> of the batch keeps a record and every
  record kept is a record of the batch. Which record of an \<open>event_id\<close> is kept is the
  engine's choice: the first one in the order in which the rows reach the aggregation,
  an order that the job neither fixes nor knows.
\<close>

theorem deduplicate_one_per_event_id:
  "(let out = deduplicate_events eng df;
        eid = (\<lambda>r. lookup (columns df) r ''event_id'')
    in columns out = columns df
       \<and> distinct (map eid (rows out))
       \<and> (\<forall>r \<in> set (rows out). find (\<lambda>x. eid x = eid r) (shuffle eng (rows df)) = Some r)
       \<and> (set (shuffle eng (rows df)) = set (rows df) \<longrightarrow>
            eid ` set (rows out) = eid ` set (rows df) \<and> set (rows out) \<subseteq> set (rows df)))"
proof -
  let ?eid = "\<lambda>r. lookup (columns df) r ''event_id''"
  let ?key = "\<lambda>r. map (lookup (columns df) r) [''event_id'']"
  let ?in = "shuffle eng (rows df)"
  let ?out = "first_per_key [] ?key ?in"
  have key: "?key = (\<lambda>r. [?eid r])" by simp
  have out: "rows (deduplicate_events eng df) = ?out"
      "columns (deduplicate_events eng df) = columns df"
    by (simp_all add: deduplicate_events_def dropDuplicates_def)
  have "distinct (map ?key ?out)"
    by (rule first_per_key_distinct)
  then have "distinct (map (\<lambda>x. [x]) (map ?eid ?out))"
    by (simp add: o_def)
  then have d: "distinct (map ?eid ?out)"
    using distinct_map [of "\<lambda>x. [x]" "map ?eid ?out"] by blast
  have "(\<lambda>x. [x]) ` ?eid ` set ?out = (\<lambda>x. [x]) ` ?eid ` set ?in"
    using first_per_key_keys [of ?key "[]" ?in] by (simp add: image_image)
  then have k: "?eid ` set ?out = ?eid ` set ?in"
    by (simp add: inj_image_eq_iff inj_on_def)
  have f: "find (\<lambda>x. ?eid x = ?eid r) ?in = Some r" if "r \<in> set ?out" for r
    using first_per_key_first [OF that] by simp
  have sub: "set ?out \<subseteq> set ?in"
    by (rule first_per_key_subset)
  show ?thesis
    unfolding Let_def out using d k f sub by auto
qed

theorem deduplicate_one_per_event_id_witness:
  "set (shuffle engine_down (rows (source_frame [rec_ok, rec_dup, rec_free]))) =
     set (rows (source_frame [rec_ok, rec_dup, rec_free]))
   \<and> rows (deduplicate_events engine_down (source_frame [rec_ok, rec_dup, rec_free])) =
     [row_of rec_ok, row_of rec_free]
   \<and> row_of rec_ok \<noteq> row_of rec_dup
   \<and> lookup get_event_schema (row_of rec_ok) ''event_id'' = Str ''e1''
   \<and> lookup get_event_schema (row_of rec_dup) ''event_id'' = Str ''e1''
   \<and> distinct (map (\<lambda>r. lookup (columns (source_frame [rec_ok, rec_dup, rec_free])) r ''event_id'')
        (rows (deduplicate_events engine_down (source_frame [rec_ok, rec_dup, rec_free]))))
   \<and> set (rows (deduplicate_events engine_down (source_frame [rec_ok, rec_dup, rec_free])))
        \<subseteq> set (rows (source_frame [rec_ok, rec_dup, rec_free]))"
  using deduplicate_one_per_event_id [of engine_down "source_frame [rec_ok, rec_dup, rec_free]"]
    dedup_sample
  by (simp add: Let_def)

text \<open>
  The claim of C4 as the specification states it fails: on a batch of two records that
  share the \<open>event_id\<close> \<open>e1\<close>, an engine whose aggregation receives the rows last to
  first keeps the second record of the batch, not the first seen, while an engine that
  receives them in the batch's order keeps the first: the batch and its order do not
  determine the result.
\<close>

theorem deduplicate_first_seen_counterexample:
  "rows (source_frame [rec_ok, rec_dup]) = [row_of rec_ok, row_of rec_dup]
   \<and> lookup get_event_schema (row_of rec_ok) ''event_id'' = Str ''e1''
   \<and> lookup get_event_schema (row_of rec_dup) ''event_id'' = Str ''e1''
   \<and> row_of rec_ok \<noteq> row_of rec_dup
   \<and> rows (deduplicate_events engine_reversing (source_frame [rec_ok, rec_dup])) = [row_of rec_dup]
   \<and> rows (deduplicate_events engine_down (source_frame [rec_ok, rec_dup])) = [row_of rec_ok]"
  by code_simp

section \<open>Properties of the sink write\<close>

lemma MAX_RETRIES_range: "[1..MAX_RETRIES] = [1, 2, 3]"
  by (simp add: MAX_RETRIES_def upto.simps)

lemma after_failed_attempt_fields:
  "sink_attempts (after_failed_attempt s) = Suc (sink_attempts s)"
  "saved (after_failed_attempt s) = saved s"
  "slept (after_failed_attempt s) = slept s @ [RETRY_DELAY_SECONDS]"
  by (simp_all add: after_failed_attempt_def sleep_def logger_def)

lemma attempt_retried:
  assumes "jdbc_save eng (sink_attempts s) = Failed m" and "\<not> is_duplicate_key m"
    and "a < MAX_RETRIES"
  shows "write_attempts eng df (a # rest) s = write_attempts eng df rest (after_failed_attempt s)"
  using assms by (simp add: Let_def after_failed_attempt_def)

lemma final_attempt:
  assumes "\<not> retryable (jdbc_save eng (sink_attempts t)) \<or> \<not> a < MAX_RETRIES"
  shows "sink_attempts (snd (write_attempts eng df (a # rest) t)) = Suc (sink_attempts t)"
    and "slept (snd (write_attempts eng df (a # rest) t)) = slept t"
    and "case jdbc_save eng (sink_attempts t) of
           Saved \<Rightarrow> fst (write_attempts eng df (a # rest) t) = Returned
                    \<and> saved (snd (write_attempts eng df (a # rest) t)) = saved t @ [df]
         | Failed m \<Rightarrow>
             saved (snd (write_attempts eng df (a # rest) t)) = saved t
             \<and> (if is_duplicate_key m then fst (write_attempts eng df (a # rest) t) = Returned
                  else \<not> a < MAX_RETRIES \<and> fst (write_attempts eng df (a # rest) t) = Raised m)"
  using assms
  by (auto simp: retryable_def Let_def logger_def split: write_outcome.splits)

lemma retry_policy_at:
  assumes "sink_attempts (snd r) = sink_attempts s + Suc k" and "k < 3"
    and "\<forall>i<k. retryable (jdbc_save eng (sink_attempts s + i))"
    and "slept (snd r) = slept s @ replicate k 5"
    and "case jdbc_save eng (sink_attempts s + k) of
           Saved \<Rightarrow> fst r = Returned \<and> saved (snd r) = saved s @ [df]
         | Failed m \<Rightarrow>
             saved (snd r) = saved s
             \<and> (if is_duplicate_key m then fst r = Returned else k = 2 \<and> fst r = Raised m)"
  shows "(let (res, s') = r;
        n = sink_attempts s' - sink_attempts s
    in 1 \<le> n \<and> n \<le> nat MAX_RETRIES \<and> MAX_RETRIES = 3 \<and> RETRY_DELAY_SECONDS = 5
       \<and> (\<forall>i<n - 1. retryable (jdbc_save eng (sink_attempts s + i)))
       \<and> slept s' = slept s @ replicate (n - 1) RETRY_DELAY_SECONDS
       \<and> (case jdbc_save eng (sink_attempts s + (n - 1)) of
             Saved \<Rightarrow> res = Returned \<and> saved s' = saved s @ [df]
           | Failed m \<Rightarrow>
               saved s' = saved s
               \<and> (if is_duplicate_key m then res = Returned
                    else n = nat MAX_RETRIES \<and> res = Raised m)))"
  using assms
  by (cases r) (auto simp: Let_def MAX_RETRIES_def RETRY_DELAY_SECONDS_def split: write_outcome.splits)

text \<open>
  C2. The sink write of a batch makes between one and \<open>MAX_RETRIES = 3\<close> attempts; every
  attempt before the last one failed with an error that is not a duplicate key, and was
  followed by a sleep of \<open>RETRY_DELAY_SECONDS = 5\<close>. The last attempt decides: saved, the
  function returns and the frame is in the table; a duplicate-key error, it returns at
  once without further attempts; any other error, it was the third attempt and the error
  is raised to the caller.
\<close>

theorem sink_write_retry_policy:
  "(let (res, s') = write_attempts eng final_df [1..MAX_RETRIES] s;
        n = sink_attempts s' - sink_attempts s
    in 1 \<le> n \<and> n \<le> nat MAX_RETRIES \<and> MAX_RETRIES = 3 \<and> RETRY_DELAY_SECONDS = 5
       \<and> (\<forall>i<n - 1. retryable (jdbc_save eng (sink_attempts s + i)))
       \<and> slept s' = slept s @ replicate (n - 1) RETRY_DELAY_SECONDS
       \<and> (case jdbc_save eng (sink_attempts s + (n - 1)) of
             Saved \<Rightarrow> res = Returned \<and> saved s' = saved s @ [final_df]
           | Failed m \<Rightarrow>
               saved s' = saved s
               \<and> (if is_duplicate_key m then res = Returned
                    else n = nat MAX_RETRIES \<and> res = Raised m)))"
proof -
  let ?o = "\<lambda>i. jdbc_save eng (sink_attempts s + i)"
  let ?s1 = "after_failed_attempt s"
  let ?s2 = "after_failed_attempt ?s1"
  let ?r = "write_attempts eng final_df [1..MAX_RETRIES] s"
  show ?thesis
  proof (cases "retryable (?o 0)")
    case False
    then have nr: "\<not> retryable (jdbc_save eng (sink_attempts s)) \<or> \<not> 1 < MAX_RETRIES"
      by simp
    show ?thesis
      unfolding MAX_RETRIES_range
      by (rule retry_policy_at [where k = 0])
         (use False final_attempt [OF nr, of final_df "[2, 3]"] in
            \<open>auto simp: MAX_RETRIES_def retryable_def simp del: write_attempts.simps
                   split: write_outcome.splits\<close>)
  next
    case r0: True
    then obtain m0 where m0: "jdbc_save eng (sink_attempts s) = Failed m0" "\<not> is_duplicate_key m0"
      by (auto simp: retryable_def split: write_outcome.splits)
    have step1: "?r = write_attempts eng final_df [2, 3] ?s1"
      unfolding MAX_RETRIES_range
      by (rule attempt_retried [OF m0]) (simp add: MAX_RETRIES_def)
    show ?thesis
    proof (cases "retryable (?o 1)")
      case False
      then have nr: "\<not> retryable (jdbc_save eng (sink_attempts ?s1)) \<or> \<not> 2 < MAX_RETRIES"
        by (simp add: after_failed_attempt_fields)
      show ?thesis
        unfolding step1
        by (rule retry_policy_at [where k = 1])
           (use r0 False final_attempt [OF nr, of final_df "[3]"] in
              \<open>auto simp: MAX_RETRIES_def RETRY_DELAY_SECONDS_def after_failed_attempt_fields
                     retryable_def simp del: write_attempts.simps split: write_outcome.splits\<close>)
    next
      case r1: True
      then obtain m1 where m1: "jdbc_save eng (sink_attempts ?s1) = Failed m1" "\<not> is_duplicate_key m1"
        by (auto simp: retryable_def after_failed_attempt_fields split: write_outcome.splits)
      have step2: "write_attempts eng final_df [2, 3] ?s1 = write_attempts eng final_df [3] ?s2"
        by (rule attempt_retried [OF m1]) (simp add: MAX_RETRIES_def)
      have all2: "\<forall>i<2. retryable (?o i)"
        using r0 r1 by (auto simp: less_Suc_eq numeral_2_eq_2)
      have nr: "\<not> retryable (jdbc_save eng (sink_attempts ?s2)) \<or> \<not> 3 < MAX_RETRIES"
        by (simp add: MAX_RETRIES_def)
      show ?thesis
        unfolding step1 step2
        by (rule retry_policy_at [where k = 2])
           (use all2 final_attempt [OF nr, of final_df "[]"] in
              \<open>auto simp: MAX_RETRIES_def RETRY_DELAY_SECONDS_def after_failed_attempt_fields
                     numeral_2_eq_2 simp del: write_attempts.simps split: write_outcome.splits\<close>)
    qed
  qed
qed

lemma connection_refused_not_duplicate: "\<not> is_duplicate_key ''Connection refused''"
  by code_simp

lemma flaky_run:
  "fst (write_attempts engine_flaky (source_frame [rec_ok]) [1..MAX_RETRIES] sys0) = Returned"
  "sink_attempts (snd (write_attempts engine_flaky (source_frame [rec_ok]) [1..MAX_RETRIES] sys0)) = 3"
  "slept (snd (write_attempts engine_flaky (source_frame [rec_ok]) [1..MAX_RETRIES] sys0)) = [5, 5]"
  "saved (snd (write_attempts engine_flaky (source_frame [rec_ok]) [1..MAX_RETRIES] sys0)) = [source_frame [rec_ok]]"
  unfolding MAX_RETRIES_range
  by (simp_all add: engine_flaky_def sys0_def Let_def logger_def sleep_def
        connection_refused_not_duplicate RETRY_DELAY_SECONDS_def MAX_RETRIES_def)

theorem sink_write_retry_policy_witness:
  "fst (write_attempts engine_flaky (source_frame [rec_ok]) [1..MAX_RETRIES] sys0) = Returned
   \<and> sink_attempts (snd (write_attempts engine_flaky (source_frame [rec_ok]) [1..MAX_RETRIES] sys0)) = 3
   \<and> slept (snd (write_attempts engine_flaky (source_frame [rec_ok]) [1..MAX_RETRIES] sys0)) = [5, 5]
   \<and> saved (snd (write_attempts engine_flaky (source_frame [rec_ok]) [1..MAX_RETRIES] sys0))
       = [source_frame [rec_ok]]
   \<and> retryable (jdbc_save engine_flaky (sink_attempts sys0))
   \<and> retryable (jdbc_save engine_flaky (sink_attempts sys0 + 1))
   \<and> jdbc_save engine_flaky (sink_attempts sys0 + 2) = Saved"
  using sink_write_retry_policy [of engine_flaky "source_frame [rec_ok]" sys0] flaky_run
  by (simp add: case_prod_beta Let_def engine_flaky_def sys0_def retryable_def
        connection_refused_not_duplicate)

lemma isEmpty_source_frame: "isEmpty (source_frame recs) = (recs = [])"
  by (simp add: isEmpty_def source_frame_def)

text \<open>
  A batch of the stream with at least one valid record reaches this retry loop with the
  deduplicated valid records, before any append, sleep or save of its own.
\<close>

lemma write_to_postgres_reaches_retry_loop:
  assumes "filter (\<lambda>r. validity (ts_parse eng) r = Bool True) recs \<noteq> []"
  shows "\<exists>s4. write_to_postgres_with_retry eng (source_frame recs) batch_id s =
     write_attempts eng
       (prepare_for_postgres (deduplicate_events eng
          \<lparr>columns = [''event_id'', ''user_id'', ''product_id'', ''product_name'',
                       ''category'', ''price'', ''event_type'', ''event_timestamp''],
           rows = map (valid_row (ts_parse eng))
                    (filter (\<lambda>r. validity (ts_parse eng) r = Bool True) recs)\<rparr>))
       [1..MAX_RETRIES] s4
     \<and> sink_attempts s4 = sink_attempts s \<and> slept s4 = slept s \<and> saved s4 = saved s"
proof -
  from assms have ne: "recs \<noteq> []" by auto
  show ?thesis
    using assms ne
    by (simp add: write_to_postgres_with_retry_def clean_and_validate_source_frame
          isEmpty_source_frame count_def Let_def write_errors_def logger_def
          del: write_attempts.simps)
       (intro conjI impI exI [where P = "\<lambda>s4. write_attempts _ _ _ _ = write_attempts _ _ _ s4 \<and> _ s4", OF conjI [OF refl]]; simp)
qed

section \<open>Properties of event generation\<close>

lemma catalog_ok:
  "\<forall>(c, ps) \<in> set CATEGORIES. ps \<noteq> [] \<and>
     (\<forall>(n, lo, hi) \<in> set ps. 0 < lo \<and> lo \<le> hi \<and> lo * 100 \<in> \<int> \<and> hi * 100 \<in> \<int>)"
  by (simp add: CATEGORIES_def)

lemma choice_in: "seq \<noteq> [] \<Longrightarrow> \<exists>x \<in> set seq. choice seq k = Inr x"
  by (simp add: choice_def)

lemma uniform_bounds:
  assumes "lo \<le> hi" and "0 \<le> u" and "u \<le> 1"
  shows "lo \<le> uniform lo hi u" and "uniform lo hi u \<le> hi"
proof -
  have "0 \<le> (hi - lo) * u"
    using assms by simp
  then show "lo \<le> uniform lo hi u" by (simp add: uniform_def)
  have "(hi - lo) * u \<le> (hi - lo) * 1"
    using assms by (intro mult_left_mono) simp_all
  then show "uniform lo hi u \<le> hi" by (simp add: uniform_def)
qed

lemma py_round2_cents: "py_round2 x * 100 \<in> \<int>"
  by (simp add: py_round2_def Let_def)

lemma py_round2_bounds:
  assumes a: "a * 100 \<in> \<int>" and b: "b * 100 \<in> \<int>" and ax: "a \<le> x" and xb: "x \<le> b"
  shows "a \<le> py_round2 x" and "py_round2 x \<le> b"
proof -
  obtain A :: int where A: "a * 100 = of_int A" using a by (auto elim: Ints_cases)
  obtain B :: int where B: "b * 100 = of_int B" using b by (auto elim: Ints_cases)
  define y where "y = x * 100"
  define f where "f = \<lfloor>y\<rfloor>"
  define r where "r = (if y - of_int f < 1 / 2 then f else if 1 / 2 < y - of_int f then f + 1
                       else if even f then f else f + 1)"
  have Ay: "of_int A \<le> y" and yB: "y \<le> of_int B"
    using ax xb A B by (simp_all add: y_def flip: A B)
  have Af: "A \<le> f" using Ay by (simp add: f_def le_floor_iff)
  have fB: "f \<le> B" using yB by (simp add: f_def floor_le_iff)
  have up: "f + 1 \<le> B" if "0 < y - of_int f"
  proof -
    have "of_int f < y" using that by simp
    then have "of_int f < (of_int B :: real)" using yB by linarith
    then have "f < B" by simp
    then show ?thesis by simp
  qed
  have rA: "A \<le> r" using Af by (simp add: r_def)
  have rB: "r \<le> B" using fB up by (auto simp: r_def)
  have eq: "py_round2 x = of_int r / 100"
    by (simp add: py_round2_def Let_def r_def f_def y_def)
  have "a = of_int A / 100" "b = of_int B / 100" using A B by simp_all
  then show "a \<le> py_round2 x" and "py_round2 x \<le> b"
    using rA rB by (simp_all add: eq divide_right_mono)
qed

lemma select_event_type_valid:
  "select_event_type rand \<in> {''view'', ''add_to_cart'', ''purchase''}"
  by (simp add: select_event_type_def EVENT_TYPES_def Let_def)

lemma select_event_type_fallback: "1 < rand \<Longrightarrow> select_event_type rand = ''view''"
  by (simp add: select_event_type_def EVENT_TYPES_def Let_def)

text \<open>
  C6. Whatever the random draws (a \<^verbatim>\<open>random()\<close> value lies in \<open>[0, 1)\<close>), the generator
  returns an event: its product is an entry of the catalog under the event's category,
  its price is the value drawn from that product's range \<open>[min_price, max_price]\<close> and
  rounded to two decimals, which lies in that range and is greater than \<open>0\<close>, and its
  \<open>event_type\<close> is one of \<open>view\<close>, \<open>add_to_cart\<close>, \<open>purchase\<close>: the weighted selection
  returns one of the three for every draw, \<open>view\<close> when the loop falls through.
\<close>

theorem generated_event_price_and_type:
  assumes "0 \<le> price_draw d" and "price_draw d < 1"
  shows "\<exists>ev category products product_name min_price max_price p.
           generate_event d = Inr ev
           \<and> (category, products) \<in> set CATEGORIES
           \<and> (product_name, min_price, max_price) \<in> set products
           \<and> map_of ev ''category'' = Some (S category)
           \<and> map_of ev ''product_name'' = Some (S product_name)
           \<and> map_of ev ''price'' = Some (F p)
           \<and> p = py_round2 (uniform min_price max_price (price_draw d))
           \<and> p * 100 \<in> \<int> \<and> min_price \<le> p \<and> p \<le> max_price \<and> 0 < p
           \<and> map_of ev ''event_type'' = Some (S (select_event_type (type_draw d)))
           \<and> select_event_type (type_draw d) \<in> {''view'', ''add_to_cart'', ''purchase''}
           \<and> (1 < type_draw d \<longrightarrow> select_event_type (type_draw d) = ''view'')"
proof -
  have "map fst CATEGORIES \<noteq> []" by (simp add: CATEGORIES_def)
  from choice_in [OF this, of "category_draw d"]
  obtain category where c: "category \<in> set (map fst CATEGORIES)"
      "choice (map fst CATEGORIES) (category_draw d) = Inr category"
    by (elim bexE)
  from c(1) have "map_of CATEGORIES category \<noteq> None"
    by (simp only: map_of_eq_None_iff set_map not_not)
  then obtain products where ps: "map_of CATEGORIES category = Some products"
    by (cases "map_of CATEGORIES category") simp_all
  then have mem: "(category, products) \<in> set CATEGORIES"
    by (rule map_of_SomeD)
  from catalog_ok [rule_format, OF mem] have ne: "products \<noteq> []"
    and prices: "\<forall>(n, lo, hi) \<in> set products. 0 < lo \<and> lo \<le> hi \<and> lo * 100 \<in> \<int> \<and> hi * 100 \<in> \<int>"
    by simp_all
  from choice_in [OF ne, of "product_draw d"]
  obtain pr where pr: "pr \<in> set products" "choice products (product_draw d) = Inr pr"
    by (elim bexE)
  obtain product_name min_price max_price where tr: "pr = (product_name, min_price, max_price)"
    by (cases pr) auto
  from prices [rule_format, OF pr(1)] tr have lo: "0 < min_price" "min_price \<le> max_price"
      "min_price * 100 \<in> \<int>" "max_price * 100 \<in> \<int>"
    by simp_all
  let ?x = "uniform min_price max_price (price_draw d)"
  have x: "min_price \<le> ?x" "?x \<le> max_price"
    using uniform_bounds [OF lo(2), of "price_draw d"] assms by simp_all
  have p: "min_price \<le> py_round2 ?x" "py_round2 ?x \<le> max_price"
    using py_round2_bounds [OF lo(3) lo(4) x] by simp_all
  have ev: "generate_event d =
      Inr [(''event_id'', S (event_uuid d)),
           (''user_id'', S (generate_user_id (user_uuid d))),
           (''product_id'', S (generate_product_id (product_uuid d))),
           (''product_name'', S product_name),
           (''category'', S category),
           (''price'', F (py_round2 ?x)),
           (''event_type'', S (select_event_type (type_draw d))),
           (''timestamp'', S (now_str d))]"
    using c ps pr tr by (simp add: generate_event_def select_product_def)
  show ?thesis
    apply (rule exI [where x = "projr (generate_event d)"])
    apply (rule exI [where x = category], rule exI [where x = products])
    apply (rule exI [where x = product_name], rule exI [where x = min_price])
    apply (rule exI [where x = max_price], rule exI [where x = "py_round2 ?x"])
    using mem pr tr lo p select_event_type_valid [of "type_draw d"]
      select_event_type_fallback [of "type_draw d"] py_round2_cents [of ?x]
    by (simp add: ev)
qed

lemma sample_event:
  "generate_event (sample_draws 0) =
     Inr [(''event_id'', S ''0f8fad5b-d9cb-469f-a165-70867728950e''),
          (''user_id'', S ''user_7c9e6679''),
          (''product_id'', S ''prod_3f2504e0''),
          (''product_name'', S ''Yoga Mat''), (''category'', S ''Sports''),
          (''price'', F 29.99), (''event_type'', S ''purchase''),
          (''timestamp'', S ''2024-01-15 10:30:00'')]"
  by code_simp

theorem generated_event_price_and_type_witness:
  "0 \<le> price_draw (sample_draws 0) \<and> price_draw (sample_draws 0) < 1
   \<and> generate_event (sample_draws 0) =
     Inr [(''event_id'', S ''0f8fad5b-d9cb-469f-a165-70867728950e''),
          (''user_id'', S ''user_7c9e6679''),
          (''product_id'', S ''prod_3f2504e0''),
          (''product_name'', S ''Yoga Mat''), (''category'', S ''Sports''),
          (''price'', F 29.99), (''event_type'', S ''purchase''),
          (''timestamp'', S ''2024-01-15 10:30:00'')]
   \<and> (\<exists>ev p. generate_event (sample_draws 0) = Inr ev \<and> map_of ev ''price'' = Some (F p) \<and> 0 < p)"
proof -
  have h: "0 \<le> price_draw (sample_draws 0)" "price_draw (sample_draws 0) < 1"
    by (simp_all add: sample_draws_def)
  from generated_event_price_and_type [OF h] sample_event h show ?thesis
    by auto
qed

section \<open>Properties of the producer loop\<close>

lemma generate_event_returns: "generate_event d = Inr (projr (generate_event d))"
proof -
  have "map fst CATEGORIES \<noteq> []" by (simp add: CATEGORIES_def)
  from choice_in [OF this, of "category_draw d"]
  obtain category where c: "category \<in> set (map fst CATEGORIES)"
      "choice (map fst CATEGORIES) (category_draw d) = Inr category"
    by (elim bexE)
  from c(1) have "map_of CATEGORIES category \<noteq> None"
    by (simp only: map_of_eq_None_iff set_map not_not)
  then obtain products where ps: "map_of CATEGORIES category = Some products"
    by (cases "map_of CATEGORIES category") simp_all
  then have mem: "(category, products) \<in> set CATEGORIES"
    by (rule map_of_SomeD)
  from catalog_ok [rule_format, OF mem] have ne: "products \<noteq> []"
    by simp
  from choice_in [OF ne, of "product_draw d"]
  obtain pr where pr: "pr \<in> set products" "choice products (product_draw d) = Inr pr"
    by (elim bexE)
  obtain product_name min_price max_price where tr: "pr = (product_name, min_price, max_price)"
    by (cases pr) auto
  show ?thesis
    using c ps pr tr by (simp add: generate_event_def select_product_def)
qed

lemma next_event_state_fields:
  "flag_reads (next_event_state env p) = flag_reads p"
  "generated (next_event_state env p) = Suc (generated p)"
  "write_calls (next_event_state env p) = write_calls p"
  "files (next_event_state env p) = files p"
  "total_events (next_event_state env p) = total_events p"
  "total_files (next_event_state env p) = total_files p"
  by (simp_all add: next_event_state_def split: prod.splits)

lemma fill_batch_Suc:
  "fill_batch env (Suc n) p events =
     (if (case signal_at env of None \<Rightarrow> False | Some k \<Rightarrow> k \<le> flag_reads p)
      then (None, p\<lparr>flag_reads := Suc (flag_reads p)\<rparr>, events)
      else (case generate_event (draw_at env (generated p)) of
              Inl e \<Rightarrow> (Some e, next_event_state env (p\<lparr>flag_reads := Suc (flag_reads p)\<rparr>), events)
            | Inr ev \<Rightarrow>
                fill_batch env n (next_event_state env (p\<lparr>flag_reads := Suc (flag_reads p)\<rparr>))
                  (events @ [ev])))"
  by (simp add: shutdown_requested_def)

lemma fill_batch_keeps:
  "files (fst (snd (fill_batch env n p events))) = files p
   \<and> total_events (fst (snd (fill_batch env n p events))) = total_events p
   \<and> total_files (fst (snd (fill_batch env n p events))) = total_files p
   \<and> write_calls (fst (snd (fill_batch env n p events))) = write_calls p
   \<and> generated p \<le> generated (fst (snd (fill_batch env n p events)))
   \<and> (fst (fill_batch env n p events) = None \<longrightarrow>
        length (snd (snd (fill_batch env n p events)))
          = length events + (generated (fst (snd (fill_batch env n p events))) - generated p))"
proof (induction n arbitrary: p events)
  case 0
  show ?case by simp
next
  case (Suc n)
  let ?p1 = "p\<lparr>flag_reads := Suc (flag_reads p)\<rparr>"
  show ?case
  proof (cases "case signal_at env of None \<Rightarrow> False | Some k \<Rightarrow> k \<le> flag_reads p")
    case True
    then show ?thesis
      unfolding fill_batch_Suc by simp
  next
    case False
    show ?thesis
    proof (cases "generate_event (draw_at env (generated p))")
      case (Inl e)
      with False show ?thesis
        unfolding fill_batch_Suc by (simp add: next_event_state_fields)
    next
      case (Inr ev)
      have eq: "fill_batch env (Suc n) p events
                  = fill_batch env n (next_event_state env ?p1) (events @ [ev])"
        unfolding fill_batch_Suc using False Inr by simp
      define r where "r = fill_batch env n (next_event_state env ?p1) (events @ [ev])"
      from Suc.IH [of "next_event_state env ?p1" "events @ [ev]"]
      have ih: "files (fst (snd r)) = files p" "total_events (fst (snd r)) = total_events p"
          "total_files (fst (snd r)) = total_files p" "write_calls (fst (snd r)) = write_calls p"
          "Suc (generated p) \<le> generated (fst (snd r))"
          "fst r = None \<longrightarrow>
             length (snd (snd r)) = Suc (length events) + (generated (fst (snd r)) - Suc (generated p))"
        by (simp_all add: next_event_state_fields r_def)
      from ih(5) have "generated p \<le> generated (fst (snd r))" by simp
      moreover from ih(5) ih(6) have "fst r = None \<longrightarrow>
          length (snd (snd r)) = length events + (generated (fst (snd r)) - generated p)"
        by auto
      ultimately show ?thesis
        unfolding eq r_def [symmetric] using ih(1-4) by simp
    qed
  qed
qed

lemma one_batch_unfold:
  "one_batch env batch_size p =
     (let r = fill_batch env (nat batch_size)
                (p\<lparr>wld := snd (time_time (clock_reading env) (wld p))\<rparr>) [];
          p2 = fst (snd r);
          events = snd (snd r)
      in case fst r of
           Some e \<Rightarrow> (Some e, p2)
         | None \<Rightarrow>
             if events = [] then (None, p2)
             else (case disk_at env (write_calls p2) of
                     Completed \<Rightarrow>
                       (None, p2\<lparr>wld := snd (time_time (clock_reading env) (wld p2)),
                                 write_calls := Suc (write_calls p2),
                                 files := files p2 @
                                   [\<lparr>file_name = ''events_'' @ file_stamp env (write_calls p2) @ ''.csv'',
                                     fieldnames = [''event_id'', ''user_id'', ''product_id'',
                                       ''product_name'', ''category'', ''price'', ''event_type'',
                                       ''timestamp''],
                                     body = events, complete = True\<rparr>],
                                 total_events := total_events p2 + int (length events),
                                 total_files := total_files p2 + 1\<rparr>)
                   | Open_failed \<Rightarrow> (Some OSError, p2\<lparr>write_calls := Suc (write_calls p2)\<rparr>)
                   | Write_failed m \<Rightarrow>
                       (Some OSError, p2\<lparr>write_calls := Suc (write_calls p2),
                                 files := files p2 @
                                   [\<lparr>file_name = ''events_'' @ file_stamp env (write_calls p2) @ ''.csv'',
                                     fieldnames = [''event_id'', ''user_id'', ''product_id'',
                                       ''product_name'', ''category'', ''price'', ''event_type'',
                                       ''timestamp''],
                                     body = take m events, complete = False\<rparr>]\<rparr>)))"
  by (simp add: one_batch_def split_def Let_def write_events_to_csv_def
        split: option.splits disk_result.splits)

lemma one_batch_counted:
  assumes "counters_match_files p"
  shows "counters_match_files (snd (one_batch env batch_size p))"
proof -
  define w where "w = snd (time_time (clock_reading env) (wld p))"
  define r where "r = fill_batch env (nat batch_size) (p\<lparr>wld := w\<rparr>) []"
  from fill_batch_keeps [of env "nat batch_size" "p\<lparr>wld := w\<rparr>" "[]"]
  have k: "files (fst (snd r)) = files p" "total_events (fst (snd r)) = total_events p"
      "total_files (fst (snd r)) = total_files p" "write_calls (fst (snd r)) = write_calls p"
      "generated p \<le> generated (fst (snd r))"
      "fst r = None \<longrightarrow> length (snd (snd r)) = generated (fst (snd r)) - generated p"
    by (simp_all add: r_def)
  have "Suc (write_calls p) \<le> generated (fst (snd r))" if "fst r = None" "snd (snd r) \<noteq> []"
  proof -
    from that(2) have "0 < length (snd (snd r))" by simp
    with that(1) k(6) have "0 < generated (fst (snd r)) - generated p" by simp
    with assms show ?thesis by (simp add: counters_match_files_def)
  qed
  then have ne: "fst r = None \<longrightarrow> snd (snd r) \<noteq> [] \<longrightarrow>
      Suc (write_calls p) \<le> generated (fst (snd r))"
    by simp
  show ?thesis
    using assms k(1-5) ne
    by (simp add: one_batch_unfold Let_def w_def [symmetric] r_def [symmetric]
          counters_match_files_def
          split: option.splits disk_result.splits)
qed

lemma one_batch_complete:
  assumes "\<forall>f \<in> set (files p). complete f" and "fst (one_batch env batch_size p) = None"
  shows "\<forall>f \<in> set (files (snd (one_batch env batch_size p))). complete f"
proof -
  define w where "w = snd (time_time (clock_reading env) (wld p))"
  define r where "r = fill_batch env (nat batch_size) (p\<lparr>wld := w\<rparr>) []"
  from fill_batch_keeps [of env "nat batch_size" "p\<lparr>wld := w\<rparr>" "[]"]
  have k: "files (fst (snd r)) = files p"
    by (simp add: r_def)
  show ?thesis
    using assms k
    by (simp add: one_batch_unfold Let_def w_def [symmetric] r_def [symmetric]
          split: option.splits disk_result.splits if_splits)
qed

lemma run_loop_Suc:
  "run_loop env batch_size duration start_time (Suc fuel) p =
     (if (case signal_at env of None \<Rightarrow> False | Some k \<Rightarrow> k \<le> flag_reads p)
      then (Stopped, p\<lparr>flag_reads := Suc (flag_reads p)\<rparr>)
      else (let q = duration_reached env duration start_time (p\<lparr>flag_reads := Suc (flag_reads p)\<rparr>)
            in if fst q then (Stopped, snd q)
               else (case fst (one_batch env batch_size (snd q)) of
                       Some e \<Rightarrow> (Crashed e, snd (one_batch env batch_size (snd q)))
                     | None \<Rightarrow>
                         run_loop env batch_size duration start_time fuel
                           (snd (one_batch env batch_size (snd q))))))"
  by (simp add: shutdown_requested_def split_def Let_def split: option.splits)

lemma duration_reached_state:
  "snd (duration_reached env duration start_time p)
     = p\<lparr>wld := wld (snd (duration_reached env duration start_time p))\<rparr>"
  by (simp add: duration_reached_def split_def Let_def split: option.splits)

lemma counters_match_files_cong:
  "counters_match_files (p\<lparr>wld := w\<rparr>) = counters_match_files p"
  "counters_match_files (p\<lparr>flag_reads := n\<rparr>) = counters_match_files p"
  by (simp_all add: counters_match_files_def)

lemma run_loop_counted:
  "counters_match_files p \<Longrightarrow>
   counters_match_files (snd (run_loop env batch_size duration start_time fuel p))"
proof (induction fuel arbitrary: p)
  case 0
  then show ?case by simp
next
  case (Suc fuel)
  let ?p1 = "p\<lparr>flag_reads := Suc (flag_reads p)\<rparr>"
  let ?p2 = "snd (duration_reached env duration start_time ?p1)"
  from Suc.prems have c1: "counters_match_files ?p1"
    by (simp add: counters_match_files_cong)
  have "counters_match_files (?p1\<lparr>wld := wld ?p2\<rparr>)"
    using c1 by (simp only: counters_match_files_cong)
  then have c2: "counters_match_files ?p2"
    using duration_reached_state [of env duration start_time ?p1] by simp
  then have c3: "counters_match_files (snd (one_batch env batch_size ?p2))"
    by (rule one_batch_counted)
  from Suc.IH [OF c3] c1 c2 c3 show ?case
    unfolding run_loop_Suc by (simp add: Let_def split: option.splits)
qed

lemma run_loop_complete:
  "\<forall>f \<in> set (files p). complete f \<Longrightarrow>
   \<forall>e. fst (run_loop env batch_size duration start_time fuel p) \<noteq> Crashed e \<Longrightarrow>
   \<forall>f \<in> set (files (snd (run_loop env batch_size duration start_time fuel p))). complete f"
proof (induction fuel arbitrary: p)
  case 0
  then show ?case by simp
next
  case (Suc fuel)
  let ?p1 = "p\<lparr>flag_reads := Suc (flag_reads p)\<rparr>"
  let ?p2 = "snd (duration_reached env duration start_time ?p1)"
  have "files (?p1\<lparr>wld := wld ?p2\<rparr>) = files p"
    by simp
  then have f2: "files ?p2 = files p"
    using duration_reached_state [of env duration start_time ?p1] by simp
  show ?case
  proof (cases "(case signal_at env of None \<Rightarrow> False | Some k \<Rightarrow> k \<le> flag_reads p)
                \<or> fst (duration_reached env duration start_time ?p1)")
    case True
    with Suc.prems(1) f2 show ?thesis
      unfolding run_loop_Suc by (auto simp add: Let_def)
  next
    case False
    show ?thesis
    proof (cases "fst (one_batch env batch_size ?p2)")
      case (Some e)
      with False Suc.prems(2) show ?thesis
        unfolding run_loop_Suc by (simp add: Let_def)
    next
      case None
      from Suc.prems(1) f2 have "\<forall>f \<in> set (files ?p2). complete f" by simp
      from one_batch_complete [OF this None]
      have c3: "\<forall>f \<in> set (files (snd (one_batch env batch_size ?p2))). complete f" .
      have eq: "run_loop env batch_size duration start_time (Suc fuel) p
                  = run_loop env batch_size duration start_time fuel
                      (snd (one_batch env batch_size ?p2))"
        unfolding run_loop_Suc using False None by (simp add: Let_def)
      from Suc.IH [OF c3] Suc.prems(2) show ?thesis
        unfolding eq by simp
    qed
  qed
qed

text \<open>
  C10. In every run of the producer, whatever the clock, the draws, the signal and the
  file system do and however long the run is watched: every file that a call of
  \<^verbatim>\<open>write_events_to_csv\<close> completed holds at least one event row; \<^verbatim>\<open>total_files\<close> is the
  number of these files and \<^verbatim>\<open>total_events\<close> the number of their rows; there are no more
  calls of \<^verbatim>\<open>write_events_to_csv\<close> than generated events (a call is made only for a
  non-empty list of events), and no more files than calls. A file that is not complete
  is what a call that raised has left, and only a run that ends with that error has one.
\<close>

theorem batch_files_never_empty:
  "case run_generator env rate batch_size duration fuel of
     (st, p) \<Rightarrow>
       (\<forall>f \<in> set (files p). complete f \<longrightarrow> body f \<noteq> [])
       \<and> total_files p = int (length (filter complete (files p)))
       \<and> total_events p = int (sum_list (map (\<lambda>f. length (body f)) (filter complete (files p))))
       \<and> length (files p) \<le> write_calls p
       \<and> write_calls p \<le> generated p
       \<and> ((\<forall>e. st \<noteq> Crashed e) \<longrightarrow> (\<forall>f \<in> set (files p). complete f))"
proof -
  define p0 where "p0 =
    \<lparr>limiter = fst (RateLimiter_init (clock_reading env) rate world0),
     wld = snd (time_time (clock_reading env) (snd (RateLimiter_init (clock_reading env) rate world0))),
     flag_reads = 0, generated = 0, write_calls = 0, files = [],
     total_events = 0, total_files = 0\<rparr>"
  define start_time where "start_time =
    fst (time_time (clock_reading env) (snd (RateLimiter_init (clock_reading env) rate world0)))"
  define r where "r = run_loop env batch_size duration start_time fuel p0"
  have rg: "run_generator env rate batch_size duration fuel
              = (fst r, (snd r)\<lparr>wld := snd (time_time (clock_reading env) (wld (snd r)))\<rparr>)"
    by (simp add: run_generator_def split_def Let_def r_def p0_def start_time_def)
  have "counters_match_files p0"
    by (simp add: counters_match_files_def p0_def)
  then have c: "counters_match_files (snd r)"
    unfolding r_def by (rule run_loop_counted)
  have "\<forall>f \<in> set (files p0). complete f"
    by (simp add: p0_def)
  from run_loop_complete [OF this, of env batch_size duration start_time fuel]
  have d: "(\<forall>e. fst r \<noteq> Crashed e) \<longrightarrow> (\<forall>f \<in> set (files (snd r)). complete f)"
    unfolding r_def by blast
  from c d show ?thesis
    unfolding rg by (simp add: counters_match_files_def)
qed

lemma sample_run:
  "fst (run_generator (sample_env 4) 5 3 None 10) = Stopped
   \<and> map (\<lambda>f. (file_name f, length (body f), complete f))
         (files (snd (run_generator (sample_env 4) 5 3 None 10)))
       = [(''events_20240101_000000_000000.csv'', 3, True)]"
  by code_simp

lemma sample_run_disk_full:
  "fst (run_generator sample_env_disk_full 5 3 None 5) = Crashed OSError
   \<and> map (\<lambda>f. (length (body f), complete f))
         (files (snd (run_generator sample_env_disk_full 5 3 None 5)))
       = [(3, True), (0, False)]"
  by code_simp

theorem batch_files_never_empty_witness:
  "fst (run_generator (sample_env 4) 5 3 None 10) = Stopped
   \<and> map (\<lambda>f. (file_name f, length (body f), complete f))
         (files (snd (run_generator (sample_env 4) 5 3 None 10)))
       = [(''events_20240101_000000_000000.csv'', 3, True)]
   \<and> total_files (snd (run_generator (sample_env 4) 5 3 None 10)) = 1
   \<and> total_events (snd (run_generator (sample_env 4) 5 3 None 10)) = 3
   \<and> fst (run_generator sample_env_disk_full 5 3 None 5) = Crashed OSError
   \<and> map (\<lambda>f. (length (body f), complete f))
         (files (snd (run_generator sample_env_disk_full 5 3 None 5)))
       = [(3, True), (0, False)]
   \<and> total_files (snd (run_generator sample_env_disk_full 5 3 None 5)) = 1
   \<and> total_events (snd (run_generator sample_env_disk_full 5 3 None 5)) = 3"
proof -
  define p where "p = snd (run_generator (sample_env 4) 5 3 None 10)"
  define q where "q = snd (run_generator sample_env_disk_full 5 3 None 5)"
  from batch_files_never_empty [of "sample_env 4" 5 3 None 10]
  have tp: "total_files p = int (length (filter complete (files p)))"
      "total_events p = int (sum_list (map (\<lambda>f. length (body f)) (filter complete (files p))))"
    by (simp_all add: split_def p_def)
  from batch_files_never_empty [of sample_env_disk_full 5 3 None 5]
  have tq: "total_files q = int (length (filter complete (files q)))"
      "total_events q = int (sum_list (map (\<lambda>f. length (body f)) (filter complete (files q))))"
    by (simp_all add: split_def q_def)
  from sample_run have fp: "map (\<lambda>f. (file_name f, length (body f), complete f)) (files p)
      = [(''events_20240101_000000_000000.csv'', 3, True)]"
    by (simp add: p_def)
  then obtain f where f: "files p = [f]" "length (body f) = 3" "complete f"
    by (auto simp add: map_eq_Cons_conv)
  from sample_run_disk_full have fq: "map (\<lambda>f. (length (body f), complete f)) (files q)
      = [(3, True), (0, False)]"
    by (simp add: q_def)
  then obtain g h where g: "files q = [g, h]" "length (body g) = 3" "complete g" "\<not> complete h"
    by (auto simp add: map_eq_Cons_conv)
  from tp f have "total_files p = 1" "total_events p = 3" by simp_all
  moreover from tq g have "total_files q = 1" "total_events q = 3" by simp_all
  ultimately show ?thesis
    using sample_run sample_run_disk_full by (simp add: p_def q_def)
qed

lemma upt_shift: "[g..<g + Suc k] = g # [Suc g..<Suc g + k]"
  by (simp add: upt_conv_Cons del: upt_Suc)

lemma fill_batch_signal:
  assumes "signal_at env = Some (flag_reads p + k)" and "k < n"
  shows "fst (fill_batch env n p events) = None
     \<and> snd (snd (fill_batch env n p events))
         = events @ map (\<lambda>i. projr (generate_event (draw_at env i))) [generated p..<generated p + k]
     \<and> flag_reads (fst (snd (fill_batch env n p events))) = flag_reads p + k + 1
     \<and> generated (fst (snd (fill_batch env n p events))) = generated p + k"
  using assms
proof (induction k arbitrary: n p events)
  case 0
  then obtain m where n: "n = Suc m" by (cases n) simp_all
  show ?case
    unfolding n fill_batch_Suc using 0 by simp
next
  case (Suc k)
  from Suc.prems(2) obtain m where n: "n = Suc m" "k < m" by (cases n) simp_all
  let ?p1 = "p\<lparr>flag_reads := Suc (flag_reads p)\<rparr>"
  let ?q = "next_event_state env ?p1"
  let ?ev = "projr (generate_event (draw_at env (generated p)))"
  obtain ev where ev: "generate_event (draw_at env (generated p)) = Inr ev"
    using generate_event_returns [of "draw_at env (generated p)"] by (rule that)
  then have ev': "?ev = ev" by simp
  have eq: "fill_batch env n p events = fill_batch env m ?q (events @ [ev])"
    unfolding n fill_batch_Suc using Suc.prems(1) ev by simp
  have sig: "signal_at env = Some (flag_reads ?q + k)"
    using Suc.prems(1) by (simp add: next_event_state_fields)
  from Suc.IH [OF sig n(2), of "events @ [ev]"] show ?case
    unfolding eq upt_shift by (simp add: next_event_state_fields ev')
qed

lemma one_batch_signal:
  assumes sig: "signal_at env = Some (flag_reads p + k)" and k: "k < nat batch_size"
    and disk: "0 < k \<longrightarrow> disk_at env (write_calls p) = Completed"
  shows "fst (one_batch env batch_size p) = None"
    and "flag_reads (snd (one_batch env batch_size p)) = flag_reads p + k + 1"
    and "generated (snd (one_batch env batch_size p)) = generated p + k"
    and "files (snd (one_batch env batch_size p)) = files p @
           (if k = 0 then []
            else [\<lparr>file_name = ''events_'' @ file_stamp env (write_calls p) @ ''.csv'',
                   fieldnames = [''event_id'', ''user_id'', ''product_id'', ''product_name'',
                                 ''category'', ''price'', ''event_type'', ''timestamp''],
                   body = map (\<lambda>i. projr (generate_event (draw_at env i)))
                            [generated p..<generated p + k],
                   complete = True\<rparr>])"
    and "total_files (snd (one_batch env batch_size p)) = total_files p + (if k = 0 then 0 else 1)"
    and "total_events (snd (one_batch env batch_size p)) = total_events p + int k"
proof -
  define w where "w = snd (time_time (clock_reading env) (wld p))"
  define r where "r = fill_batch env (nat batch_size) (p\<lparr>wld := w\<rparr>) []"
  from fill_batch_keeps [of env "nat batch_size" "p\<lparr>wld := w\<rparr>" "[]"]
  have keep: "files (fst (snd r)) = files p" "total_events (fst (snd r)) = total_events p"
      "total_files (fst (snd r)) = total_files p" "write_calls (fst (snd r)) = write_calls p"
    by (simp_all add: r_def)
  have "signal_at env = Some (flag_reads (p\<lparr>wld := w\<rparr>) + k)"
    using sig by simp
  from fill_batch_signal [OF this k, of "[]"]
  have got: "fst r = None"
      "snd (snd r) = map (\<lambda>i. projr (generate_event (draw_at env i))) [generated p..<generated p + k]"
      "flag_reads (fst (snd r)) = flag_reads p + k + 1"
      "generated (fst (snd r)) = generated p + k"
    by (simp_all add: r_def)
  have ob: "one_batch env batch_size p =
      (if k = 0 then (None, fst (snd r))
       else (None, (fst (snd r))\<lparr>wld := snd (time_time (clock_reading env) (wld (fst (snd r)))),
                 write_calls := Suc (write_calls p),
                 files := files p @
                   [\<lparr>file_name = ''events_'' @ file_stamp env (write_calls p) @ ''.csv'',
                     fieldnames = [''event_id'', ''user_id'', ''product_id'', ''product_name'',
                                   ''category'', ''price'', ''event_type'', ''timestamp''],
                     body = map (\<lambda>i. projr (generate_event (draw_at env i)))
                              [generated p..<generated p + k],
                     complete = True\<rparr>],
                 total_events := total_events p + int k,
                 total_files := total_files p + 1\<rparr>))"
    using disk keep got(1,2)
    by (simp add: one_batch_unfold Let_def w_def [symmetric] r_def [symmetric])
  show "fst (one_batch env batch_size p) = None"
    by (simp add: ob)
  show "flag_reads (snd (one_batch env batch_size p)) = flag_reads p + k + 1"
    using got(3) by (simp add: ob)
  show "generated (snd (one_batch env batch_size p)) = generated p + k"
    using got(4) by (simp add: ob)
  show "files (snd (one_batch env batch_size p)) = files p @
           (if k = 0 then []
            else [\<lparr>file_name = ''events_'' @ file_stamp env (write_calls p) @ ''.csv'',
                   fieldnames = [''event_id'', ''user_id'', ''product_id'', ''product_name'',
                                 ''category'', ''price'', ''event_type'', ''timestamp''],
                   body = map (\<lambda>i. projr (generate_event (draw_at env i)))
                            [generated p..<generated p + k],
                   complete = True\<rparr>])"
    using keep(1) by (simp add: ob)
  show "total_files (snd (one_batch env batch_size p)) = total_files p + (if k = 0 then 0 else 1)"
    using keep(3) by (simp add: ob)
  show "total_events (snd (one_batch env batch_size p)) = total_events p + int k"
    using keep(2) by (simp add: ob)
qed

text \<open>
  C7. Take the producer at the head of its \<^verbatim>\<open>while\<close> loop, in any state, with the duration
  bound not yet reached, and let the shutdown flag be seen set for the first time by the
  read that follows the \<open>k\<close>-th event of the batch, \<open>k < batch_size\<close> (the reads before it,
  one at the head of the \<^verbatim>\<open>while\<close> loop and one before each of the \<open>k\<close> events, saw it
  clear). If the file system completes the write of the batch, then the loop stops within
  two iterations, whatever the clock and the draws: exactly \<open>k\<close> more events are generated;
  when \<open>k > 0\<close> they are written, in order, as one more file, which is counted, and
  when \<open>k = 0\<close> no file is written; and the flag is read \<open>k + 3\<close> times in all: at the head
  of the loop, before each of the \<open>k\<close> events, before the event that is not generated, and
  at the head of the loop again.
\<close>

theorem shutdown_drains_batch:
  assumes sig: "signal_at env = Some (flag_reads p + 1 + k)" and k: "k < nat batch_size"
    and dur: "\<not> fst (duration_reached env duration start_time (snd (shutdown_requested env p)))"
    and disk: "0 < k \<longrightarrow> disk_at env (write_calls p) = Completed"
  shows "case run_loop env batch_size duration start_time (Suc (Suc fuel)) p of
           (st, p') \<Rightarrow>
             st = Stopped
             \<and> generated p' = generated p + k
             \<and> flag_reads p' = flag_reads p + k + 3
             \<and> files p' = files p @
                 (if k = 0 then []
                  else [\<lparr>file_name = ''events_'' @ file_stamp env (write_calls p) @ ''.csv'',
                         fieldnames = [''event_id'', ''user_id'', ''product_id'', ''product_name'',
                                       ''category'', ''price'', ''event_type'', ''timestamp''],
                         body = map (\<lambda>i. projr (generate_event (draw_at env i)))
                                  [generated p..<generated p + k],
                         complete = True\<rparr>])
             \<and> total_files p' = total_files p + (if k = 0 then 0 else 1)
             \<and> total_events p' = total_events p + int k"
proof -
  let ?p1 = "p\<lparr>flag_reads := Suc (flag_reads p)\<rparr>"
  define p2 where "p2 = snd (duration_reached env duration start_time ?p1)"
  define p3 where "p3 = snd (one_batch env batch_size p2)"
  have "p2 = ?p1\<lparr>wld := wld p2\<rparr>"
    unfolding p2_def by (rule duration_reached_state)
  then have "flag_reads p2 = flag_reads (?p1\<lparr>wld := wld p2\<rparr>)"
      "generated p2 = generated (?p1\<lparr>wld := wld p2\<rparr>)"
      "write_calls p2 = write_calls (?p1\<lparr>wld := wld p2\<rparr>)"
      "files p2 = files (?p1\<lparr>wld := wld p2\<rparr>)"
      "total_files p2 = total_files (?p1\<lparr>wld := wld p2\<rparr>)"
      "total_events p2 = total_events (?p1\<lparr>wld := wld p2\<rparr>)"
    by simp_all
  then have f2: "flag_reads p2 = Suc (flag_reads p)" "generated p2 = generated p"
      "write_calls p2 = write_calls p" "files p2 = files p"
      "total_files p2 = total_files p" "total_events p2 = total_events p"
    by simp_all
  have sig2: "signal_at env = Some (flag_reads p2 + k)"
    using sig f2(1) by simp
  have disk2: "0 < k \<longrightarrow> disk_at env (write_calls p2) = Completed"
    using disk f2(3) by simp
  note ob = one_batch_signal [OF sig2 k disk2, folded p3_def, unfolded f2]
  have dur': "\<not> fst (duration_reached env duration start_time ?p1)"
    using dur by (simp add: shutdown_requested_def)
  have step1: "run_loop env batch_size duration start_time (Suc (Suc fuel)) p
                 = run_loop env batch_size duration start_time (Suc fuel) p3"
    using sig dur' ob(1)
    by (subst run_loop_Suc) (simp add: Let_def p2_def [symmetric] p3_def [symmetric])
  have step2: "run_loop env batch_size duration start_time (Suc fuel) p3
                 = (Stopped, p3\<lparr>flag_reads := Suc (flag_reads p3)\<rparr>)"
    using sig ob(2)
    by (subst run_loop_Suc) simp
  show ?thesis
    unfolding step1 step2 using ob(2-6) by simp
qed

theorem shutdown_drains_batch_witness:
  "signal_at (sample_env 2) = Some (flag_reads sample_producer + 1 + 1)
   \<and> (1::nat) < nat 3
   \<and> \<not> fst (duration_reached (sample_env 2) None 0
              (snd (shutdown_requested (sample_env 2) sample_producer)))
   \<and> disk_at (sample_env 2) (write_calls sample_producer) = Completed
   \<and> fst (run_loop (sample_env 2) 3 None 0 (Suc (Suc 0)) sample_producer) = Stopped
   \<and> generated (snd (run_loop (sample_env 2) 3 None 0 (Suc (Suc 0)) sample_producer)) = 1
   \<and> flag_reads (snd (run_loop (sample_env 2) 3 None 0 (Suc (Suc 0)) sample_producer)) = 4
   \<and> map body (files (snd (run_loop (sample_env 2) 3 None 0 (Suc (Suc 0)) sample_producer)))
       = [[[(''event_id'', S ''0f8fad5b-d9cb-469f-a165-70867728950e''),
            (''user_id'', S ''user_7c9e6679''),
            (''product_id'', S ''prod_3f2504e0''),
            (''product_name'', S ''Yoga Mat''), (''category'', S ''Sports''),
            (''price'', F 29.99), (''event_type'', S ''purchase''),
            (''timestamp'', S ''2024-01-15 10:30:00'')]]]
   \<and> total_files (snd (run_loop (sample_env 2) 3 None 0 (Suc (Suc 0)) sample_producer)) = 1
   \<and> total_events (snd (run_loop (sample_env 2) 3 None 0 (Suc (Suc 0)) sample_producer)) = 1"
proof -
  have p: "flag_reads sample_producer = 0" "generated sample_producer = 0"
      "write_calls sample_producer = 0" "files sample_producer = []"
      "total_files sample_producer = 0" "total_events sample_producer = 0"
    by (simp_all add: sample_producer_def split_def Let_def)
  have h1: "signal_at (sample_env 2) = Some (flag_reads sample_producer + 1 + 1)"
    by (simp add: sample_env_def p)
  have h2: "(1::nat) < nat 3"
    by simp
  have h3: "\<not> fst (duration_reached (sample_env 2) None 0
              (snd (shutdown_requested (sample_env 2) sample_producer)))"
    by (simp add: duration_reached_def)
  have h4: "disk_at (sample_env 2) (write_calls sample_producer) = Completed"
    by (simp add: sample_env_def)
  have d: "draw_at (sample_env 2) = sample_draws"
    by (simp add: sample_env_def)
  define r where "r = run_loop (sample_env 2) 3 None 0 (Suc (Suc 0)) sample_producer"
  from shutdown_drains_batch [OF h1 h2 h3, of 0] h4
  have c: "fst r = Stopped" "generated (snd r) = 1" "flag_reads (snd r) = 4"
      "map body (files (snd r)) = [[projr (generate_event (sample_draws 0))]]"
      "total_files (snd r) = 1" "total_events (snd r) = 1"
    unfolding r_def [symmetric] by (simp_all add: split_def p d)
  show ?thesis
    using h1 h2 h3 h4 c unfolding r_def [symmetric] by (simp add: sample_event)
qed

end
